theory Spec2Isabelle
  imports Main "HOL-Library.AList"
begin

section \<open>Path helpers\<close>

text \<open>
  JavaScript strings are modelled as \<open>string\<close>: \<open>s.length\<close> is \<open>length s\<close>,
  \<open>s.slice(n)\<close> is \<open>drop n s\<close>, and \<open>s[i]\<close> out of range is \<open>undefined\<close>,
  which is different from every character.
\<close>

definition startsWith :: "string \<Rightarrow> string \<Rightarrow> bool" where
  "startsWith s p = (take (length p) s = p)"

text \<open>
  \<open>isPathPrefix(path, prefix)\<close> of the utilities module:
  \<open>path.startsWith(prefix) && (path.length === prefix.length || path[prefix.length] === '/')\<close>.
\<close>

definition isPathPrefix :: "string \<Rightarrow> string \<Rightarrow> bool" where
  "isPathPrefix path p =
     (startsWith path p \<and>
      (length path = length p \<or>
       (length p < length path \<and> path ! (length p) = CHR ''/'')))"

text \<open>
  Modelled from the spec: \<open>testPathPrefix\<close> is the name under which the route-match
  module and the router import the prefix test; the utilities module of that revision is
  not among the sources. The segment-boundary rule of the specification (the path starts
  with the prefix and the character after the prefix is absent or a slash) is the test
  that the available revision of the utilities module implements as \<open>isPathPrefix\<close>.
\<close>

definition testPathPrefix :: "string \<Rightarrow> string \<Rightarrow> bool" where
  "testPathPrefix path p = isPathPrefix path p"


section \<open>Route match nodes\<close>

text \<open>
  A match pattern is a literal string or a regular expression. A regular expression is
  used only through \<open>pattern.exec(upperRest)\<close>, of which the matcher reads
  \<open>groups[0]\<close>; it is modelled by that function (\<open>None\<close> for \<open>null\<close>).
\<close>

datatype pattern = Literal string | RegExp "string \<Rightarrow> string option"

text \<open>\<open>RouteMatch.segment = /[^/]+/\<close>: the leftmost longest run of non-slash characters.\<close>

definition segment_exec :: "string \<Rightarrow> string option" where
  "segment_exec s =
     (let t = takeWhile (\<lambda>c. c \<noteq> CHR ''/'') (dropWhile (\<lambda>c. c = CHR ''/'') s)
      in if t = [] then None else Some t)"

text \<open>\<open>RouteMatchParallelOptions\<close>: both fields are optional; matches are node identities.\<close>

record RouteMatchParallelOptions =
  groups :: "string list option"
  matches :: "nat list option"

text \<open>
  A \<open>RouteMatch\<close> object with the fields the matching and the transition read:
  \<open>$name\<close>, the object's identity, \<open>$group\<close>, \<open>_matchPattern\<close>, \<open>_allowExact\<close>,
  \<open>_children\<close> (\<open>undefined\<close> unless the schema declares children) and \<open>_parallel\<close>.
\<close>

datatype RouteMatch = RouteMatch
  (node_name: string)
  (node_id: nat)
  (node_group: "string option")
  (matchPattern: pattern)
  (allowExact: bool)
  (node_children: "RouteMatch list option")
  (node_parallel: "RouteMatchParallelOptions option")

record RouteMatchInternalResult =
  matched :: bool
  exactlyMatched :: bool
  segment :: "string option"
  rest :: string

datatype error =
  ExpectingSlash string  \<comment> \<open>Expecting rest of path to be started with "/"\<close>

text \<open>
  The tail of \<open>RouteMatch._match\<close>: from \<open>segment\<close> and \<open>rest\<close> it computes
  \<open>matched\<close> and \<open>exactlyMatched\<close> and demotes both when the node has a children
  array and does not allow an exact match.
\<close>

definition match_flags :: "RouteMatch \<Rightarrow> string option \<Rightarrow> string \<Rightarrow> RouteMatchInternalResult" where
  "match_flags rm seg rst =
     (let matched0 = (seg \<noteq> None);
          exactlyMatched0 = (matched0 \<and> rst = [])
      in if exactlyMatched0 \<and> (node_children rm \<noteq> None \<and> \<not> allowExact rm)
         then \<lparr>matched = False, exactlyMatched = False, segment = seg, rest = rst\<rparr>
         else \<lparr>matched = matched0, exactlyMatched = exactlyMatched0, segment = seg, rest = rst\<rparr>)"

text \<open>\<open>RouteMatch._match(upperRest)\<close>.\<close>

definition RouteMatch_match :: "RouteMatch \<Rightarrow> string \<Rightarrow> error + RouteMatchInternalResult" where
  "RouteMatch_match rm upperRest =
     (if upperRest \<noteq> [] then
        if \<not> startsWith upperRest ''/'' then Inl (ExpectingSlash upperRest)
        else
          let upperRest' = drop 1 upperRest in
          (case matchPattern rm of
             Literal p \<Rightarrow>
               if testPathPrefix upperRest' p
               then Inr (match_flags rm (Some p) (drop (length p) upperRest'))
               else Inr (match_flags rm None [])
           | RegExp exec \<Rightarrow>
               (case exec upperRest' of
                  Some m \<Rightarrow>
                    if testPathPrefix upperRest' m
                    then Inr (match_flags rm (Some m) (drop (length m) upperRest'))
                    else Inr (match_flags rm None [])
                | None \<Rightarrow> Inr (match_flags rm None [])))
      else Inr (match_flags rm None []))"


section \<open>Tree matcher\<close>

datatype RouteMatchEntry = RouteMatchEntry
  (entry_match: RouteMatch)
  (entry_exact: bool)
  (entry_segment: string)

text \<open>
  \<open>Router._match(target, upperRest)\<close> iterates over \<open>target._children || []\<close>; the
  model takes that list. \<open>undefined\<close> is \<open>None\<close>, and an exception thrown by the
  single-node matcher leaves the loop.
\<close>

definition children_of :: "RouteMatch \<Rightarrow> RouteMatch list" where
  "children_of rm = (case node_children rm of None \<Rightarrow> [] | Some cs \<Rightarrow> cs)"

lemma size_children_of:
  "size_list size (children_of rm) < size rm"
  by (cases rm) (auto simp: children_of_def split: option.splits)

function Router_match :: "RouteMatch list \<Rightarrow> string \<Rightarrow> error + RouteMatchEntry list option" where
  "Router_match [] upperRest = Inr None"
| "Router_match (routeMatch # others) upperRest =
     (case RouteMatch_match routeMatch upperRest of
        Inl e \<Rightarrow> Inl e
      | Inr r \<Rightarrow>
          if \<not> matched r then Router_match others upperRest
          else if exactlyMatched r
          then Inr (Some [RouteMatchEntry routeMatch True (the (segment r))])
          else
            (case Router_match (children_of routeMatch) (rest r) of
               Inl e \<Rightarrow> Inl e
             | Inr None \<Rightarrow> Router_match others upperRest
             | Inr (Some result) \<Rightarrow>
                 Inr (Some (RouteMatchEntry routeMatch False (the (segment r)) # result))))"
  by pat_completeness auto
termination
proof (relation "measure (\<lambda>(cs, _). size_list size cs)")
  show "wf (measure (\<lambda>(cs, _). size_list size cs))" by simp
next
  fix routeMatch :: RouteMatch and others :: "RouteMatch list" and r :: RouteMatchInternalResult
  show "((children_of routeMatch, rest r), (routeMatch # others, upperRest))
          \<in> measure (\<lambda>(cs, _). size_list size cs)" for upperRest :: string
    using size_children_of [of routeMatch] by simp
qed simp_all

text \<open>
  The reading of the specification's tree matcher, written from its words: all complete
  root-to-leaf chains, enumerated depth-first in schema declaration order. A child that
  fails to match contributes nothing, a child matched exactly contributes its one-entry
  chain, and a child matched partially contributes the chains of its children on the rest
  of the path, each after its own entry.
\<close>

function spec_complete_chains :: "RouteMatch list \<Rightarrow> string \<Rightarrow> RouteMatchEntry list list" where
  "spec_complete_chains [] upperRest = []"
| "spec_complete_chains (c # cs) upperRest =
     (case RouteMatch_match c upperRest of
        Inl e \<Rightarrow> []
      | Inr r \<Rightarrow>
          (if \<not> matched r then []
           else if exactlyMatched r then [[RouteMatchEntry c True (the (segment r))]]
           else map ((#) (RouteMatchEntry c False (the (segment r))))
                  (spec_complete_chains (children_of c) (rest r)))
          @ spec_complete_chains cs upperRest)"
  by pat_completeness auto
termination
proof (relation "measure (\<lambda>(cs, _). size_list size cs)")
  show "wf (measure (\<lambda>(cs, _). size_list size cs))" by simp
next
  fix c :: RouteMatch and cs :: "RouteMatch list" and r :: RouteMatchInternalResult
  show "((children_of c, rest r), (c # cs, upperRest))
          \<in> measure (\<lambda>(cs, _). size_list size cs)" for upperRest :: string
    using size_children_of [of c] by simp
qed simp_all

text \<open>The input domain of the matchers: the empty string or a string that starts with a slash.\<close>

definition wellFormedPath :: "string \<Rightarrow> bool" where
  "wellFormedPath p = (p = [] \<or> startsWith p ''/'')"


section \<open>Service binding and mutable node state\<close>

text \<open>
  A service object is read through its properties only: \<open>service[key]\<close> is
  \<open>undefined\<close> (\<open>None\<close>) for a property the object does not define.
\<close>

type_synonym 'v IRouteService = "string \<rightharpoonup> 'v"

text \<open>
  What \<open>tolerate(factory, this)\<close> evaluates to: a promise, or a value that is a service
  object or nothing (\<open>undefined\<close>, or any other falsy value, which \<open>_getService\<close>
  treats alike). The promise that \<open>output.then(...)\<close> creates settles once.
\<close>

datatype 'v factory_output = SyncOutput "'v IRouteService option" | PromiseOutput

datatype 'v promise_state = Pending | Resolved "'v IRouteService option"

text \<open>
  The mutable fields of a \<open>RouteMatch\<close>: \<open>_matched\<close>, \<open>_exactlyMatched\<close>,
  \<open>_service\<close>, \<open>_servicePromise\<close> (the promise's identity and state) and
  \<open>_serviceFactory\<close>. A factory is a function of the number of times it has run
  before, so that its calls may differ. \<open>n_factory_runs\<close> counts the executions of
  the factory body.
\<close>

record 'v NodeState =
  n_matched :: bool
  n_exactlyMatched :: bool
  n_service :: "'v IRouteService option"
  n_servicePromise :: "(nat \<times> 'v promise_state) option"
  n_serviceFactory :: "(nat \<Rightarrow> 'v factory_output) option"
  n_factory_runs :: nat

definition new_node :: "(nat \<Rightarrow> 'v factory_output) option \<Rightarrow> 'v NodeState" where
  "new_node factory =
     \<lparr>n_matched = False, n_exactlyMatched = False, n_service = None,
      n_servicePromise = None, n_serviceFactory = factory, n_factory_runs = 0\<rparr>"

text \<open>\<open>RouteMatch._update(matched, exactlyMatched)\<close>.\<close>

definition RouteMatch_update :: "bool \<Rightarrow> bool \<Rightarrow> 'v NodeState \<Rightarrow> 'v NodeState" where
  "RouteMatch_update matched' exactlyMatched' st =
     st\<lparr>n_matched := matched', n_exactlyMatched := exactlyMatched'\<rparr>"

text \<open>
  The getter that the \<open>RouteMatch\<close> constructor defines for every key of the schema's
  \<open>$extension\<close> with its default value.
\<close>

definition extension_get :: "'v NodeState \<Rightarrow> string \<Rightarrow> 'v option \<Rightarrow> 'v option" where
  "extension_get st key defaultValue =
     (let service = (if n_matched st then n_service st else None)
      in case service of Some s \<Rightarrow> s key | None \<Rightarrow> defaultValue)"

text \<open>
  \<open>RouteMatch._getService()\<close>. The result is what the returned promise resolves with:
  a service, the outcome of the pending promise, or \<open>undefined\<close>.
\<close>

datatype 'v service_result =
  ResultService "'v IRouteService" | ResultPromise nat | ResultUndefined

definition RouteMatch_getService :: "'v NodeState \<Rightarrow> 'v service_result \<times> 'v NodeState" where
  "RouteMatch_getService st =
     (case n_service st of
        Some service \<Rightarrow> (ResultService service, st)
      | None \<Rightarrow>
          (case n_servicePromise st of
             Some (p, _) \<Rightarrow> (ResultPromise p, st)
           | None \<Rightarrow>
               (case n_serviceFactory st of
                  None \<Rightarrow> (ResultUndefined, st)
                | Some factory \<Rightarrow>
                    let output = factory (n_factory_runs st);
                        st' = st\<lparr>n_factory_runs := Suc (n_factory_runs st)\<rparr>
                    in (case output of
                          PromiseOutput \<Rightarrow>
                            (ResultPromise (n_factory_runs st),
                             st'\<lparr>n_servicePromise := Some (n_factory_runs st, Pending)\<rparr>)
                        | SyncOutput service \<Rightarrow>
                            ((case service of
                                Some s \<Rightarrow> ResultService s
                              | None \<Rightarrow> ResultUndefined),
                             st'\<lparr>n_service := service\<rparr>)))))"

text \<open>
  The callback \<open>service => { this._service = service; return service; }\<close> of the
  pending promise, run when the factory's promise settles with \<open>service\<close>.
\<close>

definition resolve_servicePromise :: "'v IRouteService option \<Rightarrow> 'v NodeState \<Rightarrow> 'v NodeState" where
  "resolve_servicePromise service st =
     (case n_servicePromise st of
        Some (p, Pending) \<Rightarrow>
          st\<lparr>n_service := service, n_servicePromise := Some (p, Resolved service)\<rparr>
      | _ \<Rightarrow> st)"

text \<open>
  What happens to one node over its lifetime: accesses to the service, the settling of
  the pending promise, and the flag updates of leaving and entering.
\<close>

datatype 'v node_event =
  GetService | ResolvePromise "'v IRouteService option" | Update bool bool

fun node_step :: "'v node_event \<Rightarrow> 'v NodeState \<Rightarrow> 'v NodeState" where
  "node_step GetService st = snd (RouteMatch_getService st)"
| "node_step (ResolvePromise service) st = resolve_servicePromise service st"
| "node_step (Update m e) st = RouteMatch_update m e st"

fun run_events :: "'v node_event list \<Rightarrow> 'v NodeState \<Rightarrow> 'v NodeState" where
  "run_events [] st = st"
| "run_events (ev # evs) st = run_events evs (node_step ev st)"

text \<open>The results of the accesses among the events, in order.\<close>

fun access_results :: "'v node_event list \<Rightarrow> 'v NodeState \<Rightarrow> 'v service_result list" where
  "access_results [] st = []"
| "access_results (GetService # evs) st =
     fst (RouteMatch_getService st) # access_results evs (node_step GetService st)"
| "access_results (ev # evs) st = access_results evs (node_step ev st)"


section \<open>Locations and route sources\<close>

text \<open>
  A \<open>Location\<close> of the history collaborator. The router compares locations by object
  identity (\<open>location !== this._nextLocation\<close>), so every location carries its identity.
\<close>

record Location =
  pathname :: string
  search :: string
  hash :: string
  location_id :: nat

definition isLocationEqual :: "Location \<Rightarrow> Location \<Rightarrow> bool" where
  "isLocationEqual left right =
     list_all (\<lambda>key. key left = key right) [pathname, search, hash]"

text \<open>
  A JavaScript \<open>Map\<close> is an association list in insertion order; \<open>Map.set\<close> is
  \<open>AList.update\<close>, which keeps the position of a key that is present. The keys of a
  \<open>Map<RouteMatch, RouteMatchEntry>\<close> are the identities of the entries' nodes. A group
  is \<open>undefined\<close> (the primary group) or a name. The values that the commit copies may be
  \<open>undefined\<close>, hence the options.
\<close>

type_synonym group = "string option"

type_synonym MatchToMatchEntryMap = "(nat \<times> RouteMatchEntry) list"

record RouteSource =
  groupToMatchToMatchEntryMapMap :: "(group \<times> MatchToMatchEntryMap option) list"
  queryDict :: "(string \<times> string) list"
  pathMap :: "(group \<times> string option) list"

definition empty_source :: RouteSource where
  "empty_source = \<lparr>groupToMatchToMatchEntryMapMap = [], queryDict = [], pathMap = []\<rparr>"

text \<open>\<open>RouteMatch._getMatchEntry(source)\<close>.\<close>

definition RouteMatch_getMatchEntry :: "RouteSource \<Rightarrow> RouteMatch \<Rightarrow> RouteMatchEntry option" where
  "RouteMatch_getMatchEntry source routeMatch =
     (case map_of (groupToMatchToMatchEntryMapMap source) (node_group routeMatch) of
        Some (Some matchToMatchEntryMap) \<Rightarrow> map_of matchToMatchEntryMap (node_id routeMatch)
      | _ \<Rightarrow> None)"

text \<open>
  The chain of \<open>$parent\<close> references of a node, from the top-level node down to the node
  itself, found in the tree by the node's identity.
\<close>

function parent_chain :: "RouteMatch list \<Rightarrow> nat \<Rightarrow> RouteMatch list option" where
  "parent_chain [] i = None"
| "parent_chain (m # ms) i =
     (if node_id m = i then Some [m]
      else (case parent_chain (children_of m) i of
              Some chain \<Rightarrow> Some (m # chain)
            | None \<Rightarrow> parent_chain ms i))"
  by pat_completeness auto
termination
proof (relation "measure (\<lambda>(ms, _). size_list size ms)")
  show "wf (measure (\<lambda>(ms, _). size_list size ms))" by simp
next
  fix m :: RouteMatch and ms :: "RouteMatch list" and i :: nat
  show "((children_of m, i), (m # ms, i)) \<in> measure (\<lambda>(ms, _). size_list size ms)"
    using size_children_of [of m] by simp
qed simp_all

text \<open>
  \<open>_pathSegments\<close>: the dictionary from the names on the parent chain to the literal
  pattern or, for a regular expression, the segment of the node's entry in the source
  (\<open>undefined\<close> without an entry).
\<close>

definition pathSegments ::
  "RouteMatch list \<Rightarrow> RouteSource \<Rightarrow> RouteMatch \<Rightarrow> (string \<times> string option) list" where
  "pathSegments roots source routeMatch =
     fold (\<lambda>n dict.
             AList.update (node_name n)
               (case matchPattern n of
                  Literal p \<Rightarrow> Some p
                | RegExp _ \<Rightarrow> map_option entry_segment (RouteMatch_getMatchEntry source n))
               dict)
       (case parent_chain roots (node_id routeMatch) of Some chain \<Rightarrow> chain | None \<Rightarrow> [routeMatch])
       []"

definition isShallowlyEqual ::
  "(string \<times> string option) list \<Rightarrow> (string \<times> string option) list \<Rightarrow> bool" where
  "isShallowlyEqual left right =
     list_all (\<lambda>key. (case map_of left key of Some v \<Rightarrow> v | None \<Rightarrow> None) =
                       (case map_of right key of Some v \<Rightarrow> v | None \<Rightarrow> None))
       (map fst left @ map fst right)"


section \<open>The router\<close>

datatype hook = BeforeLeave | BeforeEnter | BeforeUpdate | AfterLeave | AfterEnter | AfterUpdate

text \<open>
  The fields of a \<open>Router\<close>, the mutable state of its nodes by identity, and what its
  collaborators observe: the locations passed to \<open>history.replace\<close> by \<open>_revert\<close>,
  the hook methods called on nodes, and the calls of \<open>onLeave\<close> and \<open>onChange\<close>
  (made when the option is set).
\<close>

record 'v Router =
  r_default :: Location
  r_prefix :: string
  r_onLeave :: bool
  r_onChange :: bool
  r_location :: "Location option"
  r_nextLocation :: "Location option"
  r_source :: RouteSource
  r_matchingSource :: RouteSource
  r_children :: "RouteMatch list"
  r_groups :: "string list"
  node_state :: "nat \<Rightarrow> 'v NodeState"
  replace_calls :: "Location list"
  hook_calls :: "(hook \<times> nat) list"
  onLeave_calls :: "string list"
  onChange_calls :: "(Location option \<times> Location) list"

definition Router_isNextLocationOutDated :: "'v Router \<Rightarrow> Location \<Rightarrow> bool" where
  "Router_isNextLocationOutDated r location = (Some location \<noteq> r_nextLocation r)"

definition Router_revert :: "'v Router \<Rightarrow> 'v Router" where
  "Router_revert r =
     r\<lparr>replace_calls := replace_calls r @
          [case r_location r of Some location \<Rightarrow> location | None \<Rightarrow> r_default r]\<rparr>"

definition update_node :: "RouteMatch \<Rightarrow> bool \<Rightarrow> bool \<Rightarrow> 'v Router \<Rightarrow> 'v Router" where
  "update_node routeMatch matched' exactlyMatched' r =
     r\<lparr>node_state := (node_state r)
          (node_id routeMatch :=
             RouteMatch_update matched' exactlyMatched' (node_state r (node_id routeMatch)))\<rparr>"

definition call_hook :: "hook \<Rightarrow> RouteMatch \<Rightarrow> 'v Router \<Rightarrow> 'v Router" where
  "call_hook h routeMatch r = r\<lparr>hook_calls := hook_calls r @ [(h, node_id routeMatch)]\<rparr>"

text \<open>
  The value that \<open>_beforeLeave\<close>, \<open>_beforeEnter\<close> and \<open>_beforeUpdate\<close> resolve
  with, from the results of the registered callbacks and of the service's hook
  (\<open>None\<close> is \<open>undefined\<close>): \<open>!results.some(result => result === false)\<close>.
\<close>

definition before_hook_result :: "bool option list \<Rightarrow> bool" where
  "before_hook_result results = (\<not> list_ex (\<lambda>result. result = Some False) results)"

definition has_match :: "RouteMatch list \<Rightarrow> RouteMatch \<Rightarrow> bool" where
  "has_match matchSet routeMatch = (node_id routeMatch \<in> set (map node_id matchSet))"


section \<open>One group's update as a coroutine\<close>

text \<open>
  \<open>Router._update\<close> is an \<open>async\<close> function: it runs until it awaits a hook, and is
  resumed with the hook's result. A frame holds its arguments and local variables, the
  loop it is suspended in, and the matches of that loop that are still to be processed,
  the first of which is the one whose hook is awaited.
\<close>

datatype stage = BeforeLeaveLoop | BeforeEnterLoop | AfterLeaveLoop | AfterEnterLoop | Returned

record UpdateFrame =
  u_nextLocation :: Location
  u_group :: group
  u_matchToMatchEntryMap :: MatchToMatchEntryMap
  u_previousMatchSet :: "RouteMatch list"
  u_reversedLeavingMatches :: "RouteMatch list"
  u_enteringAndUpdatingMatchSet :: "RouteMatch list"
  u_stage :: stage
  u_pending :: "RouteMatch list"

text \<open>The loop over the entering and updating matches that awaits the after hooks.\<close>

definition after_enter_loop ::
  "RouteMatch list \<Rightarrow> UpdateFrame \<Rightarrow> 'v Router \<Rightarrow> UpdateFrame \<times> 'v Router" where
  "after_enter_loop todo fr r =
     (case todo of
        [] \<Rightarrow> (fr\<lparr>u_stage := Returned, u_pending := []\<rparr>, r)
      | routeMatch # _ \<Rightarrow>
          (fr\<lparr>u_stage := AfterEnterLoop, u_pending := todo\<rparr>,
           call_hook (if has_match (u_previousMatchSet fr) routeMatch
                      then AfterUpdate else AfterEnter) routeMatch r))"

definition after_leave_loop ::
  "RouteMatch list \<Rightarrow> UpdateFrame \<Rightarrow> 'v Router \<Rightarrow> UpdateFrame \<times> 'v Router" where
  "after_leave_loop todo fr r =
     (case todo of
        [] \<Rightarrow> after_enter_loop (u_enteringAndUpdatingMatchSet fr) fr r
      | routeMatch # _ \<Rightarrow>
          (fr\<lparr>u_stage := AfterLeaveLoop, u_pending := todo\<rparr>,
           call_hook AfterLeave routeMatch r))"

text \<open>
  The commit: \<open>this._location = nextLocation\<close>, the copy of the group's data from the
  matching source into the source, and the flag updates of the leaving matches and of the
  matches of the new entry map.
\<close>

definition commit_source :: "group \<Rightarrow> RouteSource \<Rightarrow> RouteSource \<Rightarrow> RouteSource" where
  "commit_source grp matchingSource source =
     source\<lparr>queryDict := queryDict matchingSource,
            pathMap := AList.update grp
              (case map_of (pathMap matchingSource) grp of Some path \<Rightarrow> path | None \<Rightarrow> None)
              (pathMap source),
            groupToMatchToMatchEntryMapMap := AList.update grp
              (case map_of (groupToMatchToMatchEntryMapMap matchingSource) grp of
                 Some m \<Rightarrow> m | None \<Rightarrow> None)
              (groupToMatchToMatchEntryMapMap source)\<rparr>"

definition Router_commit :: "UpdateFrame \<Rightarrow> 'v Router \<Rightarrow> 'v Router" where
  "Router_commit fr r =
     (let r1 = r\<lparr>r_location := Some (u_nextLocation fr),
                 r_source := commit_source (u_group fr) (r_matchingSource r) (r_source r)\<rparr>;
          r2 = fold (\<lambda>routeMatch. update_node routeMatch False False)
                 (u_reversedLeavingMatches fr) r1
      in fold (\<lambda>(k, entry). update_node (entry_match entry) True (entry_exact entry))
           (u_matchToMatchEntryMap fr) r2)"

definition before_enter_loop ::
  "RouteMatch list \<Rightarrow> UpdateFrame \<Rightarrow> 'v Router \<Rightarrow> UpdateFrame \<times> 'v Router" where
  "before_enter_loop todo fr r =
     (case todo of
        [] \<Rightarrow> after_leave_loop (u_reversedLeavingMatches fr) fr (Router_commit fr r)
      | routeMatch # _ \<Rightarrow>
          (fr\<lparr>u_stage := BeforeEnterLoop, u_pending := todo\<rparr>,
           call_hook (if has_match (u_previousMatchSet fr) routeMatch
                      then BeforeUpdate else BeforeEnter) routeMatch r))"

definition before_leave_loop ::
  "RouteMatch list \<Rightarrow> UpdateFrame \<Rightarrow> 'v Router \<Rightarrow> UpdateFrame \<times> 'v Router" where
  "before_leave_loop todo fr r =
     (case todo of
        [] \<Rightarrow> before_enter_loop (u_enteringAndUpdatingMatchSet fr) fr r
      | routeMatch # _ \<Rightarrow>
          (fr\<lparr>u_stage := BeforeLeaveLoop, u_pending := todo\<rparr>,
           call_hook BeforeLeave routeMatch r))"

text \<open>
  The call \<open>this._update(nextLocation, group, matchToMatchEntryMap)\<close>, up to its first
  \<open>await\<close> (or to its end when no hook is awaited).
\<close>

definition Router_update ::
  "Location \<Rightarrow> group \<Rightarrow> MatchToMatchEntryMap \<Rightarrow> 'v Router \<Rightarrow> UpdateFrame \<times> 'v Router" where
  "Router_update nextLocation grp matchToMatchEntryMap r0 =
     (let (previousMatchToMatchEntryMap, r) =
            (case map_of (groupToMatchToMatchEntryMapMap (r_source r0)) grp of
               Some (Some m) \<Rightarrow> (m, r0)
             | _ \<Rightarrow>
                 ([], r0\<lparr>r_source := (r_source r0)
                        \<lparr>groupToMatchToMatchEntryMapMap :=
                           AList.update grp (Some [])
                             (groupToMatchToMatchEntryMapMap (r_source r0))\<rparr>\<rparr>));
          previousMatchSet = map (entry_match \<circ> snd) previousMatchToMatchEntryMap;
          nextMatchSet = map (entry_match \<circ> snd) matchToMatchEntryMap;
          leavingMatchSet = filter (\<lambda>m. \<not> has_match nextMatchSet m) previousMatchSet;
          enteringAndUpdatingMatchSet =
            filter (\<lambda>m. \<not> (has_match previousMatchSet m \<and>
                             isShallowlyEqual
                               (pathSegments (r_children r) (r_source r) m)
                               (pathSegments (r_children r) (r_matchingSource r) m) \<and>
                             n_exactlyMatched (node_state r (node_id m)) =
                               (case RouteMatch_getMatchEntry (r_matchingSource r) m of
                                  Some entry \<Rightarrow> entry_exact entry
                                | None \<Rightarrow> False)))
              nextMatchSet;
          fr = \<lparr>u_nextLocation = nextLocation, u_group = grp,
                u_matchToMatchEntryMap = matchToMatchEntryMap,
                u_previousMatchSet = previousMatchSet,
                u_reversedLeavingMatches = rev leavingMatchSet,
                u_enteringAndUpdatingMatchSet = enteringAndUpdatingMatchSet,
                u_stage = BeforeLeaveLoop, u_pending = []\<rparr>
      in before_leave_loop (rev leavingMatchSet) fr r)"

text \<open>
  The continuation after an awaited hook has resolved. \<open>results\<close> are the results of the
  callbacks of the hook that was awaited; the after hooks resolve with nothing.
\<close>

definition after_before_hook ::
  "(RouteMatch list \<Rightarrow> UpdateFrame \<Rightarrow> 'v Router \<Rightarrow> UpdateFrame \<times> 'v Router) \<Rightarrow>
   bool \<Rightarrow> UpdateFrame \<Rightarrow> 'v Router \<Rightarrow> UpdateFrame \<times> 'v Router" where
  "after_before_hook continue result fr r =
     (if Router_isNextLocationOutDated r (u_nextLocation fr)
      then (fr\<lparr>u_stage := Returned, u_pending := []\<rparr>, r)
      else if \<not> result
      then (fr\<lparr>u_stage := Returned, u_pending := []\<rparr>, Router_revert r)
      else continue (tl (u_pending fr)) fr r)"

definition Router_update_resume ::
  "bool option list \<Rightarrow> UpdateFrame \<Rightarrow> 'v Router \<Rightarrow> UpdateFrame \<times> 'v Router" where
  "Router_update_resume results fr r =
     (case u_stage fr of
        BeforeLeaveLoop \<Rightarrow> after_before_hook before_leave_loop (before_hook_result results) fr r
      | BeforeEnterLoop \<Rightarrow> after_before_hook before_enter_loop (before_hook_result results) fr r
      | AfterLeaveLoop \<Rightarrow> after_leave_loop (tl (u_pending fr)) fr r
      | AfterEnterLoop \<Rightarrow> after_enter_loop (tl (u_pending fr)) fr r
      | Returned \<Rightarrow> (fr, r))"



section \<open>The transition pipeline\<close>

text \<open>The construction of a \<open>Set\<close> from a list: the first occurrence of an element counts.\<close>

definition insertion_order :: "'a list \<Rightarrow> 'a list" where
  "insertion_order xs = rev (remdups (rev xs))"

text \<open>
  The loop over \<open>this._groups\<close> that moves the group paths from the query dictionary
  (keys \<open>_<group>\<close>) into \<open>pathInfos\<close> and \<open>pathMap\<close>.
\<close>

fun extract_group_paths ::
  "string list \<Rightarrow> (string \<times> group) list \<Rightarrow> (group \<times> string option) list \<Rightarrow>
   (string \<times> string) list \<Rightarrow>
   (string \<times> group) list \<times> (group \<times> string option) list \<times> (string \<times> string) list" where
  "extract_group_paths [] pathInfos pathMap' queryDict' = (pathInfos, pathMap', queryDict')"
| "extract_group_paths (g # gs) pathInfos pathMap' queryDict' =
     (let key = CHR ''_'' # g in
      case map_of queryDict' key of
        None \<Rightarrow> extract_group_paths gs pathInfos pathMap' queryDict'
      | Some path \<Rightarrow>
          if path \<noteq> []
          then extract_group_paths gs (pathInfos @ [(path, Some g)])
                 (AList.update (Some g) (Some path) pathMap') (AList.delete key queryDict')
          else extract_group_paths gs pathInfos pathMap' (AList.delete key queryDict'))"

text \<open>
  The loop that matches every path against the tree; an exception of the matcher
  leaves the pipeline.
\<close>

fun match_parallel ::
  "RouteMatch list \<Rightarrow> (string \<times> group) list \<Rightarrow> (group \<times> RouteMatchEntry list) list \<Rightarrow>
   error + (group \<times> RouteMatchEntry list) list" where
  "match_parallel roots [] groupToMatchEntriesMap = Inr groupToMatchEntriesMap"
| "match_parallel roots ((path, grp) # pathInfos) groupToMatchEntriesMap =
     (case Router_match roots path of
        Inl e \<Rightarrow> Inl e
      | Inr result \<Rightarrow>
          (case (case result of None \<Rightarrow> [] | Some entries \<Rightarrow> entries) of
             [] \<Rightarrow> match_parallel roots pathInfos groupToMatchEntriesMap
           | entry # entries \<Rightarrow>
               if node_group (entry_match entry) \<noteq> grp
               then match_parallel roots pathInfos groupToMatchEntriesMap
               else match_parallel roots pathInfos
                      (AList.update grp (entry # entries) groupToMatchEntriesMap)))"

text \<open>\<open>new Map(entries.map(entry => [entry.match, entry]))\<close>.\<close>

definition entries_map :: "RouteMatchEntry list \<Rightarrow> MatchToMatchEntryMap" where
  "entries_map entries =
     fold (\<lambda>entry m. AList.update (node_id (entry_match entry)) entry m) entries []"

text \<open>
  The check of the primary match's parallel whitelist. Every entry list in the map is
  non-empty, since only non-empty lists are stored; the empty cases are unreachable.
\<close>

definition apply_whitelist ::
  "(group \<times> RouteMatchEntry list) list \<Rightarrow> (group \<times> MatchToMatchEntryMap option) list" where
  "apply_whitelist groupToMatchEntriesMap =
     (case map_of groupToMatchEntriesMap None of
        None \<Rightarrow> []
      | Some [] \<Rightarrow> []
      | Some (primaryEntry # _) \<Rightarrow>
          (let whitelist = node_parallel (entry_match primaryEntry);
               groups' = (case whitelist of None \<Rightarrow> []
                          | Some w \<Rightarrow> (case groups w of None \<Rightarrow> [] | Some gs \<Rightarrow> gs));
               matches' = (case whitelist of None \<Rightarrow> []
                           | Some w \<Rightarrow> (case matches w of None \<Rightarrow> [] | Some ms \<Rightarrow> ms))
           in fold (\<lambda>(grp, entries) acc.
                      (case entries of
                         [] \<Rightarrow> acc
                       | entry # _ \<Rightarrow>
                           if whitelist = None \<or> grp = None \<or> grp = Some [] \<or>
                              (case grp of Some g \<Rightarrow> g \<in> set groups' | None \<Rightarrow> False) \<or>
                              node_id (entry_match entry) \<in> set matches'
                           then AList.update grp (Some (entries_map entries)) acc
                           else acc))
                groupToMatchEntriesMap []))"

text \<open>The loop that calls \<open>this._update\<close> for every group of \<open>groupSet\<close>.\<close>

fun start_updates ::
  "Location \<Rightarrow> group list \<Rightarrow> (group \<times> MatchToMatchEntryMap option) list \<Rightarrow> 'v Router \<Rightarrow>
   UpdateFrame list \<times> 'v Router" where
  "start_updates nextLocation [] gm r = ([], r)"
| "start_updates nextLocation (grp # gs) gm r =
     (let matchToMatchEntryMap = (case map_of gm grp of Some (Some m) \<Rightarrow> m | _ \<Rightarrow> []);
          (fr, r') = Router_update nextLocation grp matchToMatchEntryMap r;
          (frs, r'') = start_updates nextLocation gs gm r'
      in (fr # frs, r''))"

text \<open>
  A pipeline that has reached \<open>await Promise.all(updatePromises)\<close>: the local
  variables \<open>location\<close> and \<open>nextLocation\<close> and the updates it started.
\<close>

record Pipeline =
  p_location :: "Location option"
  p_nextLocation :: Location
  p_updates :: "UpdateFrame list"

text \<open>
  \<open>Router._asyncOnLocationChange(nextLocation)\<close> up to \<open>await Promise.all\<close>. The
  result has no pipeline when the function returned early. \<open>URLSearchParams\<close> belongs
  to the platform; its parsing of the search string into key-value pairs is the parameter
  \<open>searchParams\<close>.
\<close>

definition Router_asyncOnLocationChange ::
  "(string \<Rightarrow> (string \<times> string) list) \<Rightarrow> Location \<Rightarrow> 'v Router \<Rightarrow>
   error + (Pipeline option \<times> 'v Router)" where
  "Router_asyncOnLocationChange searchParams nextLocation r =
     (if Router_isNextLocationOutDated r nextLocation then Inr (None, r)
      else if (case r_location r of
                 Some location \<Rightarrow> isLocationEqual location nextLocation
               | None \<Rightarrow> False)
      then Inr (None, r)
      else
        let queryDict0 = fold (\<lambda>(key, value) dict. AList.update key value dict)
                           (searchParams (search nextLocation)) []
        in
        if \<not> testPathPrefix (pathname nextLocation) (r_prefix r)
        then Inr (None,
                  if r_onLeave r
                  then r\<lparr>onLeave_calls := onLeave_calls r @ [pathname nextLocation]\<rparr>
                  else r)
        else
          let sliced = drop (length (r_prefix r)) (pathname nextLocation);
              pathWithoutPrefix = (if sliced = [] then ''/'' else sliced);
              (pathInfos, pathMap', queryDict') =
                extract_group_paths (r_groups r) [(pathWithoutPrefix, None)]
                  [(None, Some pathWithoutPrefix)] queryDict0
          in
          (case match_parallel (r_children r) pathInfos [] of
             Inl e \<Rightarrow> Inl e
           | Inr groupToMatchEntriesMap \<Rightarrow>
               let gm = apply_whitelist groupToMatchEntriesMap;
                   r1 = r\<lparr>r_matchingSource :=
                           \<lparr>groupToMatchToMatchEntryMapMap = gm, queryDict = queryDict',
                            pathMap = pathMap'\<rparr>\<rparr>;
                   groupSet = insertion_order (map fst pathMap' @ map fst (pathMap (r_source r1)));
                   (frames, r2) = start_updates nextLocation groupSet gm r1
               in Inr (Some \<lparr>p_location = r_location r, p_nextLocation = nextLocation,
                             p_updates = frames\<rparr>, r2)))"

text \<open>The end of the pipeline, once every update has returned: the call of \<open>onChange\<close>.\<close>

definition Router_notify :: "Pipeline \<Rightarrow> 'v Router \<Rightarrow> 'v Router" where
  "Router_notify p r =
     (if r_onChange r
      then r\<lparr>onChange_calls := onChange_calls r @ [(p_location p, p_nextLocation p)]\<rparr>
      else r)"


section \<open>The router's runs\<close>

text \<open>
  A configuration: the router, the pipeline in progress if any, and the locations whose
  processing is chained on \<open>this._changing\<close> and has not begun.
\<close>

record 'v Config =
  c_router :: "'v Router"
  c_pipeline :: "Pipeline option"
  c_queue :: "Location list"

text \<open>\<open>Router._onLocationChange(location)\<close>.\<close>

definition Router_onLocationChange :: "Location \<Rightarrow> 'v Config \<Rightarrow> 'v Config" where
  "Router_onLocationChange location c =
     c\<lparr>c_router := (c_router c)\<lparr>r_nextLocation := Some location\<rparr>,
       c_queue := c_queue c @ [location]\<rparr>"

definition new_router ::
  "Location \<Rightarrow> string \<Rightarrow> bool \<Rightarrow> bool \<Rightarrow> RouteMatch list \<Rightarrow> string list \<Rightarrow>
   (nat \<Rightarrow> (nat \<Rightarrow> 'v factory_output) option) \<Rightarrow> 'v Router" where
  "new_router default' prefix' onLeave' onChange' roots groups' factories =
     \<lparr>r_default = default', r_prefix = prefix', r_onLeave = onLeave', r_onChange = onChange',
      r_location = None, r_nextLocation = None, r_source = empty_source,
      r_matchingSource = empty_source, r_children = roots, r_groups = groups',
      node_state = (\<lambda>i. new_node (factories i)), replace_calls = [], hook_calls = [],
      onLeave_calls = [], onChange_calls = []\<rparr>"

definition initial_config :: "'v Router \<Rightarrow> 'v Config" where
  "initial_config r = \<lparr>c_router = r, c_pipeline = None, c_queue = []\<rparr>"

text \<open>
  The steps of a run. Between two steps of the router's own code anything may happen that
  JavaScript's event loop allows: a location arrives; the next queued location begins its
  pipeline once the previous pipeline has ended; a suspended update of the pipeline is
  resumed with the results of its hook; the pipeline ends when all its updates have
  returned; and the hooks of a node access its service or the factory's promise settles.
\<close>

inductive step ::
  "(string \<Rightarrow> (string \<times> string) list) \<Rightarrow> 'v Config \<Rightarrow> 'v Config \<Rightarrow> bool"
  for searchParams :: "string \<Rightarrow> (string \<times> string) list" where
  location_arrives: "step searchParams c (Router_onLocationChange location c)"
| pipeline_begins:
    "c_pipeline c = None \<Longrightarrow> c_queue c = location # queue \<Longrightarrow>
     Router_asyncOnLocationChange searchParams location (c_router c) = Inr (p, r') \<Longrightarrow>
     step searchParams c (c\<lparr>c_router := r', c_pipeline := p, c_queue := queue\<rparr>)"
| pipeline_throws:
    "c_pipeline c = None \<Longrightarrow> c_queue c = location # queue \<Longrightarrow>
     Router_asyncOnLocationChange searchParams location (c_router c) = Inl e \<Longrightarrow>
     step searchParams c (c\<lparr>c_queue := queue\<rparr>)"
| update_resumes:
    "c_pipeline c = Some p \<Longrightarrow> i < length (p_updates p) \<Longrightarrow>
     u_stage (p_updates p ! i) \<noteq> Returned \<Longrightarrow>
     Router_update_resume results (p_updates p ! i) (c_router c) = (fr', r') \<Longrightarrow>
     step searchParams c
       (c\<lparr>c_router := r', c_pipeline := Some (p\<lparr>p_updates := (p_updates p)[i := fr']\<rparr>)\<rparr>)"
| pipeline_ends:
    "c_pipeline c = Some p \<Longrightarrow> list_all (\<lambda>fr. u_stage fr = Returned) (p_updates p) \<Longrightarrow>
     step searchParams c (c\<lparr>c_router := Router_notify p (c_router c), c_pipeline := None\<rparr>)"
| service_accessed:
    "step searchParams c
       (c\<lparr>c_router := (c_router c)
            \<lparr>node_state := (node_state (c_router c))
               (i := node_step GetService (node_state (c_router c) i))\<rparr>\<rparr>)"
| promise_settles:
    "step searchParams c
       (c\<lparr>c_router := (c_router c)
            \<lparr>node_state := (node_state (c_router c))
               (i := node_step (ResolvePromise service) (node_state (c_router c) i))\<rparr>\<rparr>)"

inductive reachable ::
  "(string \<Rightarrow> (string \<times> string) list) \<Rightarrow> 'v Router \<Rightarrow> 'v Config \<Rightarrow> bool"
  for searchParams :: "string \<Rightarrow> (string \<times> string) list" and r0 :: "'v Router" where
  initial: "reachable searchParams r0 (initial_config r0)"
| after_step:
    "reachable searchParams r0 c \<Longrightarrow> step searchParams c c' \<Longrightarrow> reachable searchParams r0 c'"


text \<open>
  The part of a run that belongs to one update: its hooks resolve and the update is
  resumed, and meanwhile the hooks of a node access its service or the factory's promise
  settles. No location arrives in such a run, so the update is not superseded.
\<close>

datatype 'v update_event =
  HookResolved "bool option list" | ServiceAccessed nat
| PromiseSettled nat "'v IRouteService option"

fun update_step ::
  "'v update_event \<Rightarrow> UpdateFrame \<times> 'v Router \<Rightarrow> UpdateFrame \<times> 'v Router" where
  "update_step (HookResolved results) (fr, r) = Router_update_resume results fr r"
| "update_step (ServiceAccessed i) (fr, r) =
     (fr, r\<lparr>node_state := (node_state r)(i := node_step GetService (node_state r i))\<rparr>)"
| "update_step (PromiseSettled i service) (fr, r) =
     (fr, r\<lparr>node_state := (node_state r)
                (i := node_step (ResolvePromise service) (node_state r i))\<rparr>)"

fun run_update ::
  "'v update_event list \<Rightarrow> UpdateFrame \<times> 'v Router \<Rightarrow> UpdateFrame \<times> 'v Router" where
  "run_update [] st = st"
| "run_update (ev # evs) st = run_update evs (update_step ev st)"

text \<open>
  Predicates for the proofs about a cancelled transition: the update is suspended at a
  before hook; two routers have the same node flags; a router differs from another at most
  in the hooks called, the service fields of its nodes and its matching source. The last
  definition is the committed source after \<open>_update\<close> has made sure that the group has
  an entry map.
\<close>

definition before_stage :: "UpdateFrame \<Rightarrow> bool" where
  "before_stage fr = (u_stage fr = BeforeLeaveLoop \<or> u_stage fr = BeforeEnterLoop)"

definition same_flags :: "'v Router \<Rightarrow> 'v Router \<Rightarrow> bool" where
  "same_flags r r' =
     (\<forall>i. n_matched (node_state r' i) = n_matched (node_state r i) \<and>
          n_exactlyMatched (node_state r' i) = n_exactlyMatched (node_state r i))"

definition quiet :: "'v Router \<Rightarrow> 'v Router \<Rightarrow> bool" where
  "quiet r r' =
     (r_default r' = r_default r \<and> r_location r' = r_location r \<and>
      r_nextLocation r' = r_nextLocation r \<and> r_source r' = r_source r \<and>
      replace_calls r' = replace_calls r \<and> same_flags r r')"

definition prepared_source :: "group \<Rightarrow> RouteSource \<Rightarrow> RouteSource" where
  "prepared_source grp src =
     (case map_of (groupToMatchToMatchEntryMapMap src) grp of
        Some (Some m) \<Rightarrow> src
      | _ \<Rightarrow> src\<lparr>groupToMatchToMatchEntryMapMap :=
                   AList.update grp (Some []) (groupToMatchToMatchEntryMapMap src)\<rparr>)"


text \<open>The invariant of the node flags: an exactly matched node is matched.\<close>

definition flags_inv :: "'v Router \<Rightarrow> bool" where
  "flags_inv r = (\<forall>i. n_exactlyMatched (node_state r i) \<longrightarrow> n_matched (node_state r i))"


text \<open>
  The state of the service fields after any number of events, for a factory that has
  run at most once: nothing is cached before the factory has run, and the only promise
  is the one of that run, pending exactly as long as \<open>_service\<close> is unset.
\<close>

definition service_inv :: "'v NodeState \<Rightarrow> bool" where
  "service_inv st =
     (n_factory_runs st \<le> 1 \<and>
      (n_factory_runs st = 0 \<longrightarrow> n_service st = None \<and> n_servicePromise st = None) \<and>
      (n_factory_runs st = 1 \<longrightarrow>
         n_service st \<noteq> None \<or> (\<exists>ps. n_servicePromise st = Some (0, ps))) \<and>
      (\<forall>p ps. n_servicePromise st = Some (p, ps) \<longrightarrow>
         p = 0 \<and> (ps = Pending \<longrightarrow> n_service st = None) \<and>
         (\<forall>s. n_service st = Some s \<longrightarrow> ps = Resolved (Some s))))"

section \<open>Example schemas\<close>

text \<open>
  The nodes built for the schema \<open>{x: {$children: {y: {}}}}\<close>; the default segment
  matcher turns the keys \<open>x\<close> and \<open>y\<close> into the literals of the same spelling.
  \<open>schema_x\<close> leaves the \<open>$exact\<close> option and the children open.
\<close>

definition schema_y :: RouteMatch where
  "schema_y = RouteMatch ''y'' 1 None (Literal ''y'') False None None"

definition schema_x :: "bool \<Rightarrow> RouteMatch list option \<Rightarrow> RouteMatch" where
  "schema_x ex ch = RouteMatch ''x'' 0 None (Literal ''x'') ex ch None"

text \<open>
  A schema in which two siblings can match the same path: \<open>{x: {$children: {y: {}}},
  other: {$match: RouteMatch.segment, $children: {z: {}}}}\<close>.
\<close>

definition schema_z :: RouteMatch where
  "schema_z = RouteMatch ''z'' 3 None (Literal ''z'') False None None"

definition schema_other :: RouteMatch where
  "schema_other = RouteMatch ''other'' 2 None (RegExp segment_exec) False (Some [schema_z]) None"

definition ambiguous_schema :: "RouteMatch list" where
  "ambiguous_schema = [schema_x False (Some [schema_y]), schema_other,
                       RouteMatch ''last'' 4 None (RegExp segment_exec) False (Some [schema_y]) None]"


text \<open>
  Service fixtures: a factory whose first call yields nothing (it threw and the failure
  was tolerated) and whose later calls yield a service; a factory that returns a promise;
  and a matched node whose service defines the property \<open>account\<close> only.
\<close>

definition failing_once_factory :: "nat \<Rightarrow> int factory_output" where
  "failing_once_factory k =
     (if k = 0 then SyncOutput None else SyncOutput (Some [''tick'' \<mapsto> 0]))"

definition async_factory :: "nat \<Rightarrow> int factory_output" where
  "async_factory k = PromiseOutput"

definition matched_with_service :: "int NodeState" where
  "matched_with_service =
     (new_node None)\<lparr>n_matched := True, n_service := Some [''account'' \<mapsto> 7]\<rparr>"

text \<open>
  A router for the schema \<open>{x: {$children: {y: {}}}}\<close> with the default options and an
  \<open>onChange\<close> callback, three locations, and a platform whose search strings carry no
  parameters.
\<close>

definition demo_default :: Location where
  "demo_default = \<lparr>pathname = ''/'', search = [], hash = [], location_id = 0\<rparr>"

definition location_xy :: Location where
  "location_xy = \<lparr>pathname = ''/x/y'', search = [], hash = [], location_id = 1\<rparr>"

definition location_root :: Location where
  "location_root = \<lparr>pathname = ''/'', search = [], hash = [], location_id = 2\<rparr>"

definition location_xy_again :: Location where
  "location_xy_again = \<lparr>pathname = ''/x/y'', search = [], hash = [], location_id = 3\<rparr>"

definition no_searchParams :: "string \<Rightarrow> (string \<times> string) list" where
  "no_searchParams s = []"

definition demo_router :: "int Router" where
  "demo_router =
     new_router demo_default [] False True [schema_x False (Some [schema_y])] [] (\<lambda>i. None)"

definition entry_x :: RouteMatchEntry where
  "entry_x = RouteMatchEntry (schema_x False (Some [schema_y])) False ''x''"

definition entry_y :: RouteMatchEntry where
  "entry_y = RouteMatchEntry schema_y True ''y''"

text \<open>
  The update of the primary group for \<open>location_xy\<close>, suspended at the
  \<open>beforeEnter\<close> hook of \<open>x\<close>, and the router at that moment.
\<close>

definition demo_frame :: UpdateFrame where
  "demo_frame =
     \<lparr>u_nextLocation = location_xy, u_group = None,
      u_matchToMatchEntryMap = [(0, entry_x), (1, entry_y)],
      u_previousMatchSet = [], u_reversedLeavingMatches = [],
      u_enteringAndUpdatingMatchSet = [schema_x False (Some [schema_y]), schema_y],
      u_stage = BeforeEnterLoop,
      u_pending = [schema_x False (Some [schema_y]), schema_y]\<rparr>"

definition demo_awaiting :: "int Router" where
  "demo_awaiting =
     demo_router
       \<lparr>r_nextLocation := Some location_xy,
        r_source := empty_source\<lparr>groupToMatchToMatchEntryMapMap := [(None, Some [])]\<rparr>,
        r_matchingSource :=
          \<lparr>groupToMatchToMatchEntryMapMap = [(None, Some [(0, entry_x), (1, entry_y)])],
           queryDict = [], pathMap = [(None, Some ''/x/y'')]\<rparr>,
        hook_calls := [(BeforeEnter, 0)]\<rparr>"

text \<open>
  The rest of that update when no hook cancels: the \<open>beforeEnter\<close> hooks of \<open>x\<close> and
  \<open>y\<close> resolve, the update commits, and the two \<open>afterEnter\<close> hooks resolve.
\<close>

definition demo_step1 :: "UpdateFrame \<times> int Router" where
  "demo_step1 = Router_update_resume [] demo_frame demo_awaiting"

definition demo_step2 :: "UpdateFrame \<times> int Router" where
  "demo_step2 = Router_update_resume [Some True, None] (fst demo_step1) (snd demo_step1)"

definition demo_step3 :: "UpdateFrame \<times> int Router" where
  "demo_step3 = Router_update_resume [] (fst demo_step2) (snd demo_step2)"

definition demo_committed :: "UpdateFrame \<times> int Router" where
  "demo_committed = Router_update_resume [] (fst demo_step3) (snd demo_step3)"

definition demo_config :: "UpdateFrame \<times> int Router \<Rightarrow> int Config" where
  "demo_config st =
     \<lparr>c_router = snd st,
      c_pipeline = Some \<lparr>p_location = None, p_nextLocation = location_xy,
                         p_updates = [fst st]\<rparr>,
      c_queue = []\<rparr>"

text \<open>
  The router after that run, written out, and the next transition: \<open>location_root\<close>
  arrives, nothing matches \<open>/\<close>, and the update of the primary group is suspended at
  the \<open>beforeLeave\<close> hook of \<open>y\<close>.
\<close>

definition committed_router :: "int Router" where
  "committed_router =
     demo_awaiting
       \<lparr>r_location := Some location_xy,
        r_source :=
          \<lparr>groupToMatchToMatchEntryMapMap = [(None, Some [(0, entry_x), (1, entry_y)])],
           queryDict = [], pathMap = [(None, Some ''/x/y'')]\<rparr>,
        node_state := (\<lambda>i. new_node None)
          (0 := RouteMatch_update True False (new_node None),
           1 := RouteMatch_update True True (new_node None)),
        hook_calls := [(BeforeEnter, 0), (BeforeEnter, 1), (AfterEnter, 0), (AfterEnter, 1)]\<rparr>"

definition leave_frame :: UpdateFrame where
  "leave_frame =
     \<lparr>u_nextLocation = location_root, u_group = None, u_matchToMatchEntryMap = [],
      u_previousMatchSet = [schema_x False (Some [schema_y]), schema_y],
      u_reversedLeavingMatches = [schema_y, schema_x False (Some [schema_y])],
      u_enteringAndUpdatingMatchSet = [],
      u_stage = BeforeLeaveLoop,
      u_pending = [schema_y, schema_x False (Some [schema_y])]\<rparr>"

definition leave_awaiting :: "int Router" where
  "leave_awaiting =
     committed_router
       \<lparr>r_nextLocation := Some location_root,
        r_matchingSource :=
          \<lparr>groupToMatchToMatchEntryMapMap = [], queryDict = [],
           pathMap = [(None, Some ''/'')]\<rparr>,
        hook_calls := hook_calls committed_router @ [(BeforeLeave, 1)]\<rparr>"

text \<open>
  Runs of a pipeline as functions: the start of the pipeline for a location that has just
  been recorded, and the resumption of the update at a position of the pipeline.
\<close>

definition resume_at ::
  "nat \<Rightarrow> bool option list \<Rightarrow> UpdateFrame list \<times> 'v Router \<Rightarrow> UpdateFrame list \<times> 'v Router" where
  "resume_at i results st =
     (let (fr', r') = Router_update_resume results (fst st ! i) (snd st)
      in ((fst st)[i := fr'], r'))"

definition begin_pipeline ::
  "(string \<Rightarrow> (string \<times> string) list) \<Rightarrow> Location \<Rightarrow> 'v Router \<Rightarrow> UpdateFrame list \<times> 'v Router" where
  "begin_pipeline searchParams location r =
     (case Router_asyncOnLocationChange searchParams location (r\<lparr>r_nextLocation := Some location\<rparr>) of
        Inr (Some p, r') \<Rightarrow> (p_updates p, r')
      | Inr (None, r') \<Rightarrow> ([], r')
      | Inl e \<Rightarrow> ([], r))"

text \<open>
  A router with a parallel group: the primary route \<open>x\<close> and the routes \<open>s\<close> and
  \<open>t\<close> of the group \<open>sidebar\<close>, whose path the query key \<open>_sidebar\<close> carries.
  First \<open>/x?_sidebar=/s\<close> is committed; then \<open>/x?_sidebar=/t\<close> arrives and the
  \<open>beforeLeave\<close> hook of \<open>s\<close> resolves to \<open>false\<close>.
\<close>

definition side_s :: RouteMatch where
  "side_s = RouteMatch ''s'' 5 (Some ''sidebar'') (Literal ''s'') False None None"

definition side_t :: RouteMatch where
  "side_t = RouteMatch ''t'' 6 (Some ''sidebar'') (Literal ''t'') False None None"

definition sidebar_searchParams :: "string \<Rightarrow> (string \<times> string) list" where
  "sidebar_searchParams s =
     (if s = ''?_sidebar=/s'' then [(''_sidebar'', ''/s'')]
      else if s = ''?_sidebar=/t'' then [(''_sidebar'', ''/t'')] else [])"

definition location_xs :: Location where
  "location_xs = \<lparr>pathname = ''/x'', search = ''?_sidebar=/s'', hash = [], location_id = 4\<rparr>"

definition location_xt :: Location where
  "location_xt = \<lparr>pathname = ''/x'', search = ''?_sidebar=/t'', hash = [], location_id = 5\<rparr>"

definition parallel_router :: "int Router" where
  "parallel_router =
     new_router demo_default [] False False [schema_x False None, side_s, side_t] [''sidebar'']
       (\<lambda>i. None)"

definition parallel_begun :: "UpdateFrame list \<times> int Router" where
  "parallel_begun = begin_pipeline sidebar_searchParams location_xs parallel_router"

definition parallel_committed :: "UpdateFrame list \<times> int Router" where
  "parallel_committed =
     resume_at 1 [] (resume_at 1 [] (resume_at 0 [] (resume_at 0 [] parallel_begun)))"

definition parallel_second :: "UpdateFrame list \<times> int Router" where
  "parallel_second = begin_pipeline sidebar_searchParams location_xt (snd parallel_committed)"

definition parallel_cancelled :: "UpdateFrame list \<times> int Router" where
  "parallel_cancelled = resume_at 1 [Some False] parallel_second"


section \<open>Properties of the single-node matcher\<close>

lemma match_flags_sel [simp]:
  "segment (match_flags rm seg rst) = seg"
  "rest (match_flags rm seg rst) = rst"
  by (simp_all add: match_flags_def Let_def)

lemma match_flags_matched:
  "matched (match_flags rm seg rst) =
     (seg \<noteq> None \<and> \<not> (rst = [] \<and> node_children rm \<noteq> None \<and> \<not> allowExact rm))"
  "exactlyMatched (match_flags rm seg rst) =
     (seg \<noteq> None \<and> rst = [] \<and> \<not> (node_children rm \<noteq> None \<and> \<not> allowExact rm))"
  by (auto simp: match_flags_def Let_def)

lemma RouteMatch_match_flags:
  "RouteMatch_match rm upperRest = Inr r \<Longrightarrow> r = match_flags rm (segment r) (rest r)"
  by (auto simp: RouteMatch_match_def Let_def split: if_splits pattern.splits option.splits)

text \<open>The non-null assertion \<open>segment!\<close> of the tree matcher is justified: a matched
  result carries a segment.\<close>

lemma matched_has_segment:
  assumes "RouteMatch_match rm upperRest = Inr r" and "matched r"
  shows "segment r \<noteq> None"
proof -
  have "matched (match_flags rm (segment r) (rest r))"
    using RouteMatch_match_flags [OF assms(1)] assms(2) by simp
  then show ?thesis by (simp add: match_flags_matched)
qed

lemma RouteMatch_match_literal:
  assumes "matchPattern rm = Literal p" and "upperRest \<noteq> []" and "startsWith upperRest ''/''"
  shows "RouteMatch_match rm upperRest =
           Inr (if isPathPrefix (drop 1 upperRest) p
                then match_flags rm (Some p) (drop (length p) (drop 1 upperRest))
                else match_flags rm None [])"
  using assms by (simp add: RouteMatch_match_def testPathPrefix_def Let_def)

lemma isPathPrefix_drop:
  "isPathPrefix s p \<Longrightarrow> wellFormedPath (drop (length p) s)"
  by (auto simp: isPathPrefix_def wellFormedPath_def startsWith_def take_Suc_conv_app_nth
      hd_drop_conv_nth intro!: nth_equalityI)

lemma RouteMatch_match_rest:
  "RouteMatch_match rm upperRest = Inr r \<Longrightarrow> wellFormedPath (rest r)"
  by (auto simp: RouteMatch_match_def testPathPrefix_def Let_def wellFormedPath_def[of "[]"]
      dest: isPathPrefix_drop split: if_splits pattern.splits option.splits)

lemma RouteMatch_match_total:
  "wellFormedPath upperRest \<Longrightarrow> \<exists>r. RouteMatch_match rm upperRest = Inr r"
  by (auto simp: RouteMatch_match_def wellFormedPath_def Let_def
      split: pattern.splits option.splits)

text \<open>
  Claim C8. For a node with a literal pattern and a non-empty remaining path (which starts
  with a slash, as the matcher's input does): after the leading slash is stripped, the
  match succeeds (the matcher finds a segment, which is what it assigns to \<open>matched\<close>
  before the demotion of exact matches) if and only if the remainder starts with the
  literal and the character after the literal is absent or a slash; on success the segment
  is the literal and \<open>rest\<close> is the remainder after the literal. The last conjunct
  relates this to the returned \<open>matched\<close> flag, which the demotion may clear.
\<close>

theorem literal_segment_boundary:
  assumes "matchPattern rm = Literal p" and "upperRest \<noteq> []" and "startsWith upperRest ''/''"
  shows "\<exists>r. RouteMatch_match rm upperRest = Inr r \<and>
           ((segment r \<noteq> None) =
              (take (length p) (drop 1 upperRest) = p \<and>
               (length (drop 1 upperRest) = length p \<or>
                (length p < length (drop 1 upperRest) \<and>
                 drop 1 upperRest ! length p = CHR ''/'')))) \<and>
           (segment r \<noteq> None \<longrightarrow>
              segment r = Some p \<and> rest r = drop (length p) (drop 1 upperRest)) \<and>
           (matched r =
              (segment r \<noteq> None \<and>
               \<not> (rest r = [] \<and> node_children rm \<noteq> None \<and> \<not> allowExact rm)))"
  unfolding RouteMatch_match_literal [OF assms]
  by (simp add: isPathPrefix_def startsWith_def match_flags_matched)

theorem literal_segment_boundary_witness:
  "\<exists>r. RouteMatch_match schema_y ''/y/z'' = Inr r \<and> segment r = Some ''y'' \<and> rest r = ''/z''
       \<and> matched r"
  using literal_segment_boundary [of schema_y "''y''" "''/y/z''"]
  by (auto simp: schema_y_def startsWith_def)

text \<open>
  Claim C2. Whenever the single-node matcher returns, \<open>exactlyMatched\<close> is
  \<open>matched\<close> and \<open>rest = ''\<close>; when a segment was found with nothing left, and the
  node has children and does not allow an exact match, both flags are false, and otherwise
  \<open>matched\<close> says whether a segment was found. For the schema
  \<open>{x: {$children: {y: {}}}}\<close> the path \<open>/x/y\<close> matches \<open>y\<close> exactly, and the path
  \<open>/x\<close> matches \<open>x\<close> exactly precisely when \<open>x\<close> has no children or declares
  \<open>$exact\<close>.
\<close>

theorem single_node_exactness:
  "(\<forall>rm upperRest r. RouteMatch_match rm upperRest = Inr r \<longrightarrow>
      (exactlyMatched r = (matched r \<and> rest r = [])) \<and>
      (if segment r \<noteq> None \<and> rest r = [] \<and> node_children rm \<noteq> None \<and> \<not> allowExact rm
       then \<not> matched r \<and> \<not> exactlyMatched r
       else matched r = (segment r \<noteq> None))) \<and>
   Router_match [schema_x False (Some [schema_y])] ''/x/y'' =
     Inr (Some [RouteMatchEntry (schema_x False (Some [schema_y])) False ''x'',
                RouteMatchEntry schema_y True ''y'']) \<and>
   (\<forall>ex ch. RouteMatch_match (schema_x ex ch) ''/x'' =
      Inr \<lparr>matched = (ch = None \<or> ex), exactlyMatched = (ch = None \<or> ex),
           segment = Some ''x'', rest = []\<rparr>)"
proof (intro conjI allI impI)
  fix rm upperRest r
  assume a: "RouteMatch_match rm upperRest = Inr r"
  have r: "r = match_flags rm (segment r) (rest r)" using RouteMatch_match_flags [OF a] .
  show "exactlyMatched r = (matched r \<and> rest r = [])"
    by (subst r, subst (2) r) (auto simp: match_flags_matched)
  show "if segment r \<noteq> None \<and> rest r = [] \<and> node_children rm \<noteq> None \<and> \<not> allowExact rm
       then \<not> matched r \<and> \<not> exactlyMatched r
       else matched r = (segment r \<noteq> None)"
    by (subst r, subst (2) r, subst (3) r) (auto simp: match_flags_matched)
next
  show "Router_match [schema_x False (Some [schema_y])] ''/x/y'' =
     Inr (Some [RouteMatchEntry (schema_x False (Some [schema_y])) False ''x'',
                RouteMatchEntry schema_y True ''y''])"
    by (simp add: schema_x_def schema_y_def RouteMatch_match_def testPathPrefix_def
        isPathPrefix_def startsWith_def match_flags_def children_of_def)
next
  fix ex ch
  show "RouteMatch_match (schema_x ex ch) ''/x'' =
      Inr \<lparr>matched = (ch = None \<or> ex), exactlyMatched = (ch = None \<or> ex),
           segment = Some ''x'', rest = []\<rparr>"
    by (auto simp: schema_x_def RouteMatch_match_def testPathPrefix_def
        isPathPrefix_def startsWith_def match_flags_def Let_def)
qed

theorem single_node_exactness_witness:
  "RouteMatch_match (schema_x False (Some [schema_y])) ''/x'' =
     Inr \<lparr>matched = False, exactlyMatched = False, segment = Some ''x'', rest = []\<rparr> \<and>
   RouteMatch_match (schema_x True (Some [schema_y])) ''/x'' =
     Inr \<lparr>matched = True, exactlyMatched = True, segment = Some ''x'', rest = []\<rparr> \<and>
   RouteMatch_match (schema_x False None) ''/x'' =
     Inr \<lparr>matched = True, exactlyMatched = True, segment = Some ''x'', rest = []\<rparr>"
  using single_node_exactness by simp


section \<open>Properties of the tree matcher\<close>

lemma Router_match_total:
  "wellFormedPath upperRest \<Longrightarrow> \<exists>res. Router_match cs upperRest = Inr res"
proof (induction cs upperRest rule: Router_match.induct)
  case (1 upperRest)
  then show ?case by simp
next
  case (2 routeMatch others upperRest)
  obtain r where r: "RouteMatch_match routeMatch upperRest = Inr r"
    using RouteMatch_match_total [OF "2.prems"] by blast
  have wf: "wellFormedPath (rest r)" using RouteMatch_match_rest [OF r] .
  show ?case
  proof (cases "matched r")
    case False
    with r "2.IH"(1) "2.prems" show ?thesis by simp
  next
    case True
    note m = this
    show ?thesis
    proof (cases "exactlyMatched r")
      case True
      with r m show ?thesis by simp
    next
      case False
      obtain sub where sub: "Router_match (children_of routeMatch) (rest r) = Inr sub"
        using "2.IH"(2) [OF r _ False wf] m by auto
      show ?thesis
      proof (cases sub)
        case None
        with "2.IH"(3) [OF r _ False] m sub "2.prems" r False show ?thesis by simp
      next
        case (Some a)
        with r m False sub show ?thesis by simp
      qed
    qed
  qed
qed

lemma Router_match_first_chain:
  "wellFormedPath upperRest \<Longrightarrow>
   Router_match cs upperRest =
     Inr (case spec_complete_chains cs upperRest of [] \<Rightarrow> None | chain # _ \<Rightarrow> Some chain)"
proof (induction cs upperRest rule: Router_match.induct)
  case (1 upperRest)
  then show ?case by simp
next
  case (2 routeMatch others upperRest)
  obtain r where r: "RouteMatch_match routeMatch upperRest = Inr r"
    using RouteMatch_match_total [OF "2.prems"] by blast
  have wf: "wellFormedPath (rest r)" using RouteMatch_match_rest [OF r] .
  show ?case
  proof (cases "matched r")
    case False
    with r "2.IH"(1) "2.prems" show ?thesis by simp
  next
    case True
    note m = this
    show ?thesis
    proof (cases "exactlyMatched r")
      case True
      with r m show ?thesis by simp
    next
      case False
      have sub: "Router_match (children_of routeMatch) (rest r) =
          Inr (case spec_complete_chains (children_of routeMatch) (rest r) of
                 [] \<Rightarrow> None | chain # _ \<Rightarrow> Some chain)"
        using "2.IH"(2) [OF r _ False wf] m by auto
      show ?thesis
      proof (cases "spec_complete_chains (children_of routeMatch) (rest r)")
        case Nil
        with "2.IH"(3) [OF r _ False] m sub "2.prems" r False show ?thesis by simp
      next
        case (Cons a list)
        with r m False sub show ?thesis by simp
      qed
    qed
  qed
qed

text \<open>
  Claim C3. On a well-formed path the tree matcher returns the first complete chain of
  the depth-first enumeration in declaration order, or \<open>undefined\<close> when there is none:
  a failed child or a child whose subtree yields no chain gives way to the next sibling,
  an exact match ends the chain, and a partial match continues in the child's children
  with the rest of the path. The result is never an error, however many chains exist.
\<close>

theorem tree_matcher_first_chain:
  "wellFormedPath upperRest \<Longrightarrow>
   Router_match cs upperRest =
     Inr (case spec_complete_chains cs upperRest of [] \<Rightarrow> None | chain # _ \<Rightarrow> Some chain)"
  by (rule Router_match_first_chain)

lemma ambiguous_schema_chains:
  "spec_complete_chains ambiguous_schema ''/x/z'' =
     [[RouteMatchEntry schema_other False ''x'', RouteMatchEntry schema_z True ''z'']]"
  "spec_complete_chains ambiguous_schema ''/x/y'' =
     [[RouteMatchEntry (schema_x False (Some [schema_y])) False ''x'',
       RouteMatchEntry schema_y True ''y''],
      [RouteMatchEntry (RouteMatch ''last'' 4 None (RegExp segment_exec) False
          (Some [schema_y]) None) False ''x'',
       RouteMatchEntry schema_y True ''y'']]"
  by (simp_all add: ambiguous_schema_def schema_x_def schema_y_def schema_z_def
      schema_other_def RouteMatch_match_def testPathPrefix_def isPathPrefix_def startsWith_def
      match_flags_def children_of_def segment_exec_def)

theorem tree_matcher_first_chain_witness:
  "Router_match ambiguous_schema ''/x/z'' =
     Inr (Some [RouteMatchEntry schema_other False ''x'', RouteMatchEntry schema_z True ''z'']) \<and>
   Router_match ambiguous_schema ''/x/y'' =
     Inr (Some [RouteMatchEntry (schema_x False (Some [schema_y])) False ''x'',
                RouteMatchEntry schema_y True ''y''])"
  using tree_matcher_first_chain [of "''/x/z''" ambiguous_schema]
    tree_matcher_first_chain [of "''/x/y''" ambiguous_schema]
  by (simp add: ambiguous_schema_chains wellFormedPath_def startsWith_def)

text \<open>
  Claim C10. Whenever the single-node matcher returns, its \<open>rest\<close> is empty or starts
  with a slash; hence on a path that is empty or starts with a slash the tree matcher
  returns a result at every depth and never reaches the branch that throws
  \<open>Expecting rest of path to be started with "/"\<close>.
\<close>

theorem rest_wellformed_no_error:
  "(\<forall>rm upperRest r. RouteMatch_match rm upperRest = Inr r \<longrightarrow>
      rest r = [] \<or> startsWith (rest r) ''/'') \<and>
   (\<forall>cs upperRest. upperRest = [] \<or> startsWith upperRest ''/'' \<longrightarrow>
      (\<exists>res. Router_match cs upperRest = Inr res))"
  using RouteMatch_match_rest Router_match_total by (simp add: wellFormedPath_def)

theorem rest_wellformed_no_error_witness:
  "RouteMatch_match (schema_x False (Some [schema_y])) ''/x/y'' =
     Inr \<lparr>matched = True, exactlyMatched = False, segment = Some ''x'', rest = ''/y''\<rparr> \<and>
   startsWith ''/y'' ''/'' \<and>
   (\<exists>res. Router_match ambiguous_schema ''/x/y'' = Inr res)"
proof -
  have "\<exists>res. Router_match ambiguous_schema ''/x/y'' = Inr res"
    using rest_wellformed_no_error by (simp add: startsWith_def)
  then show ?thesis
    by (simp add: schema_x_def RouteMatch_match_def testPathPrefix_def isPathPrefix_def
        startsWith_def match_flags_def)
qed

section \<open>Properties of the service binding\<close>

lemma getService_first_run:
  assumes "service_inv st" and "n_serviceFactory st = Some f" and "f 0 \<noteq> SyncOutput None"
  shows "service_inv (snd (RouteMatch_getService st)) \<and>
         n_serviceFactory (snd (RouteMatch_getService st)) = Some f \<and>
         (fst (RouteMatch_getService st) = ResultPromise 0 \<or>
          (\<exists>s. fst (RouteMatch_getService st) = ResultService s \<and>
               n_service (snd (RouteMatch_getService st)) = Some s))"
proof (cases "n_factory_runs st = 0")
  case True
  show ?thesis
  proof (cases "f 0")
    case (SyncOutput x)
    with assms(3) obtain s where "x = Some s" by (cases x) auto
    with SyncOutput True assms(1,2) show ?thesis
      by (auto simp: service_inv_def RouteMatch_getService_def Let_def
          split: option.splits prod.splits)
  next
    case PromiseOutput
    with True assms(1,2) show ?thesis
      by (auto simp: service_inv_def RouteMatch_getService_def Let_def
          split: option.splits prod.splits)
  qed
next
  case False
  with assms(1) have "n_factory_runs st = 1" by (simp add: service_inv_def)
  with assms(1,2) show ?thesis
    by (auto simp: service_inv_def RouteMatch_getService_def Let_def
        split: option.splits prod.splits)
qed

lemma service_inv_step:
  assumes "service_inv st" and "n_serviceFactory st = Some f" and "f 0 \<noteq> SyncOutput None"
  shows "service_inv (node_step ev st) \<and> n_serviceFactory (node_step ev st) = Some f"
proof (cases ev)
  case GetService
  with getService_first_run [OF assms] show ?thesis by simp
next
  case (ResolvePromise x)
  with assms show ?thesis
    by (auto simp: service_inv_def resolve_servicePromise_def
        split: option.splits prod.splits promise_state.splits)
next
  case (Update m e)
  with assms show ?thesis by (auto simp: service_inv_def RouteMatch_update_def)
qed

lemma service_kept:
  assumes "service_inv st" and "n_service st = Some s"
  shows "n_service (node_step ev st) = Some s"
proof (cases ev)
  case GetService
  with assms show ?thesis by (simp add: RouteMatch_getService_def)
next
  case (ResolvePromise x)
  with assms show ?thesis
    by (auto simp: service_inv_def resolve_servicePromise_def
        split: option.splits prod.splits promise_state.splits)
next
  case (Update m e)
  with assms show ?thesis by (simp add: RouteMatch_update_def)
qed

lemma run_events_inv:
  assumes "f 0 \<noteq> SyncOutput None"
  shows "service_inv st \<Longrightarrow> n_serviceFactory st = Some f \<Longrightarrow> service_inv (run_events evs st)"
proof (induction evs arbitrary: st)
  case Nil
  then show ?case by simp
next
  case (Cons ev evs)
  then show ?case using service_inv_step [OF Cons.prems assms, of ev] by simp
qed

lemma cached_service_reused:
  assumes "f 0 \<noteq> SyncOutput None"
  shows "service_inv st \<Longrightarrow> n_serviceFactory st = Some f \<Longrightarrow> n_service st = Some s \<Longrightarrow>
         res \<in> set (access_results evs st) \<Longrightarrow> res = ResultService s"
proof (induction evs arbitrary: st)
  case Nil
  then show ?case by simp
next
  case (Cons ev evs)
  have inv': "service_inv (node_step ev st)" "n_serviceFactory (node_step ev st) = Some f"
    using service_inv_step [OF Cons.prems(1,2) assms, of ev] by simp_all
  have kept: "n_service (node_step ev st) = Some s"
    using service_kept [OF Cons.prems(1,3)] .
  show ?case
  proof (cases ev)
    case GetService
    with Cons.prems(4) have "res = fst (RouteMatch_getService st) \<or>
        res \<in> set (access_results evs (node_step ev st))" by auto
    then show ?thesis
    proof
      assume "res = fst (RouteMatch_getService st)"
      with Cons.prems(3) show ?thesis by (simp add: RouteMatch_getService_def)
    next
      assume "res \<in> set (access_results evs (node_step ev st))"
      then show ?thesis using Cons.IH [OF inv' kept] by simp
    qed
  next
    case (ResolvePromise x)
    with Cons.prems(4) have "res \<in> set (access_results evs (node_step ev st))" by simp
    then show ?thesis using Cons.IH [OF inv' kept] by simp
  next
    case (Update m e)
    with Cons.prems(4) have "res \<in> set (access_results evs (node_step ev st))" by simp
    then show ?thesis using Cons.IH [OF inv' kept] by simp
  qed
qed

lemma one_promise_one_service:
  assumes "f 0 \<noteq> SyncOutput None"
  shows "service_inv st \<Longrightarrow> n_serviceFactory st = Some f \<Longrightarrow>
         \<exists>s0. \<forall>res \<in> set (access_results evs st). res = ResultPromise 0 \<or> res = ResultService s0"
proof (induction evs arbitrary: st)
  case Nil
  then show ?case by simp
next
  case (Cons ev evs)
  have inv': "service_inv (node_step ev st)" "n_serviceFactory (node_step ev st) = Some f"
    using service_inv_step [OF Cons.prems(1,2) assms, of ev] by simp_all
  obtain s0 where s0: "\<forall>res \<in> set (access_results evs (node_step ev st)).
      res = ResultPromise 0 \<or> res = ResultService s0"
    using Cons.IH [OF inv'] by blast
  show ?case
  proof (cases ev)
    case GetService
    from getService_first_run [OF Cons.prems(1,2) assms]
    have "fst (RouteMatch_getService st) = ResultPromise 0 \<or>
          (\<exists>s. fst (RouteMatch_getService st) = ResultService s \<and>
               n_service (snd (RouteMatch_getService st)) = Some s)" by simp
    then show ?thesis
    proof
      assume "fst (RouteMatch_getService st) = ResultPromise 0"
      with s0 GetService show ?thesis by auto
    next
      assume "\<exists>s. fst (RouteMatch_getService st) = ResultService s \<and>
              n_service (snd (RouteMatch_getService st)) = Some s"
      then obtain s where s: "fst (RouteMatch_getService st) = ResultService s"
        "n_service (node_step ev st) = Some s" using GetService by auto
      have "\<forall>res \<in> set (access_results evs (node_step ev st)). res = ResultService s"
        using cached_service_reused [OF assms inv' s(2)] by blast
      with s(1) GetService show ?thesis by auto
    qed
  next
    case (ResolvePromise x)
    with s0 show ?thesis by auto
  next
    case (Update m e)
    with s0 show ?thesis by auto
  qed
qed

lemma new_node_inv:
  "service_inv (new_node (Some f))" "n_serviceFactory (new_node (Some f)) = Some f"
  by (simp_all add: service_inv_def new_node_def)

text \<open>
  Where the factory's first call yields a service or a promise: over any sequence of
  accesses, promise settlements and flag updates (leaving and re-entering included) the
  factory body runs at most once, and every access is answered by the one pending promise
  (identity 0, the promise of that run) or by one and the same service instance.
\<close>

lemma service_constructed_at_most_once:
  assumes "f 0 \<noteq> SyncOutput None"
  shows "n_factory_runs (run_events evs (new_node (Some f))) \<le> 1 \<and>
         (\<exists>s0. \<forall>res \<in> set (access_results evs (new_node (Some f))).
            res = ResultPromise 0 \<or> res = ResultService s0)"
proof
  have "service_inv (run_events evs (new_node (Some f)))"
    using run_events_inv [OF assms new_node_inv(1) [of f] new_node_inv(2) [of f]] .
  then show "n_factory_runs (run_events evs (new_node (Some f))) \<le> 1"
    by (simp add: service_inv_def)
  show "\<exists>s0. \<forall>res \<in> set (access_results evs (new_node (Some f))).
            res = ResultPromise 0 \<or> res = ResultService s0"
    using one_promise_one_service [OF assms new_node_inv(1) [of f] new_node_inv(2) [of f]] .
qed

lemma service_constructed_at_most_once_example:
  "n_factory_runs (run_events
      [GetService, GetService, ResolvePromise (Some [''tick'' \<mapsto> 0]), Update True True,
       Update False False, Update True True, GetService]
      (new_node (Some async_factory))) = 1 \<and>
   access_results
      [GetService, GetService, ResolvePromise (Some [''tick'' \<mapsto> 0]), Update True True,
       Update False False, Update True True, GetService]
      (new_node (Some async_factory)) =
     [ResultPromise 0, ResultPromise 0, ResultService [''tick'' \<mapsto> 0]]"
  using service_constructed_at_most_once [of async_factory
      "[GetService, GetService, ResolvePromise (Some [''tick'' \<mapsto> 0]), Update True True,
       Update False False, Update True True, GetService]"]
  by (simp add: async_factory_def new_node_def RouteMatch_getService_def
      resolve_servicePromise_def RouteMatch_update_def)

text \<open>
  Claim C6. The claim says that the factory body runs at most once over the node's
  lifetime. \<open>_getService\<close> keeps that for a factory that returns a promise, also when
  the promise settles with nothing: \<open>_servicePromise\<close> stays set and no later access
  runs the factory. It breaks it for a factory whose call yields nothing synchronously
  (the call failed and the failure was tolerated): neither \<open>_service\<close> nor
  \<open>_servicePromise\<close> is set, and the next access runs the factory body again.
\<close>

theorem failed_construction_rerun:
  "n_factory_runs
     (run_events [GetService, GetService] (new_node (Some failing_once_factory))) = 2 \<and>
   access_results [GetService, GetService] (new_node (Some failing_once_factory)) =
     [ResultUndefined, ResultService [''tick'' \<mapsto> 0]] \<and>
   n_factory_runs
     (run_events [GetService, ResolvePromise None, GetService, Update False False,
                  Update True True, GetService]
        (new_node (Some async_factory))) = 1 \<and>
   access_results [GetService, ResolvePromise None, GetService, Update False False,
                   Update True True, GetService]
     (new_node (Some async_factory)) =
     [ResultPromise 0, ResultPromise 0, ResultPromise 0]"
  by (simp add: RouteMatch_getService_def new_node_def failing_once_factory_def
      async_factory_def resolve_servicePromise_def RouteMatch_update_def)

text \<open>
  What the getter of an extension key returns: the service's property of that name when
  the node is matched and its service has been constructed, which is \<open>undefined\<close> when
  the service does not define the property; the static default when the node is unmatched
  or no service has been constructed.
\<close>

lemma extension_value:
  "(n_matched st \<and> n_service st = Some service \<and> service key = Some v \<longrightarrow>
      extension_get st key defaultValue = Some v) \<and>
   (n_matched st \<and> n_service st = Some service \<and> service key = None \<longrightarrow>
      extension_get st key defaultValue = None) \<and>
   (\<not> n_matched st \<longrightarrow> extension_get st key defaultValue = defaultValue) \<and>
   (n_service st = None \<longrightarrow> extension_get st key defaultValue = defaultValue)"
  by (simp add: extension_get_def)

lemma extension_value_examples:
  "extension_get matched_with_service ''account'' None = Some 7"
  "extension_get (RouteMatch_update False False matched_with_service) ''account'' (Some 1) = Some 1"
  "extension_get (new_node None) ''account'' (Some 1) = Some (1::int)"
  by (simp_all add: extension_get_def matched_with_service_def new_node_def RouteMatch_update_def)

text \<open>
  Claim C7. The claim, like the repository's reference page on services (if the key
  does not exist on the service instance, it will then fallback to the \<open>$extension\<close>
  object), says that a matched node whose service does not define the property yields
  the static default. The getter does not: for the matched node whose service defines
  \<open>account\<close> only, reading \<open>tick\<close> with the static default \<open>0\<close> yields
  \<open>undefined\<close>.
\<close>

theorem extension_missing_key_undefined:
  "n_matched matched_with_service \<and>
   n_service matched_with_service = Some [''account'' \<mapsto> 7] \<and>
   extension_get matched_with_service ''tick'' (Some 0) = None"
  by (simp add: extension_get_def matched_with_service_def new_node_def)

section \<open>Properties of the transition pipeline\<close>

lemmas demo_defs = demo_default_def location_xy_def location_root_def location_xy_again_def
  no_searchParams_def demo_router_def entry_x_def entry_y_def demo_frame_def demo_awaiting_def
  schema_x_def schema_y_def new_router_def empty_source_def new_node_def

lemmas matcher_defs = RouteMatch_match_def testPathPrefix_def isPathPrefix_def startsWith_def
  match_flags_def children_of_def

lemmas pipeline_defs = Router_asyncOnLocationChange_def Router_isNextLocationOutDated_def
  isLocationEqual_def apply_whitelist_def entries_map_def insertion_order_def
  Router_update_def has_match_def before_leave_loop_def before_enter_loop_def
  after_leave_loop_def after_enter_loop_def call_hook_def Router_commit_def commit_source_def
  update_node_def RouteMatch_update_def Router_update_resume_def after_before_hook_def
  before_hook_result_def Router_revert_def pathSegments_def isShallowlyEqual_def
  RouteMatch_getMatchEntry_def

text \<open>The pipeline for \<open>location_xy\<close> on the new router suspends in \<open>demo_frame\<close>.\<close>

lemma demo_begins:
  "Router_asyncOnLocationChange no_searchParams location_xy
     (demo_router\<lparr>r_nextLocation := Some location_xy\<rparr>) =
   Inr (Some \<lparr>p_location = None, p_nextLocation = location_xy, p_updates = [demo_frame]\<rparr>,
        demo_awaiting)"
  by (simp add: demo_defs matcher_defs pipeline_defs Let_def)

lemma demo_stages:
  "u_stage (fst demo_step1) = BeforeEnterLoop"
  "u_stage (fst demo_step2) = AfterEnterLoop"
  "u_stage (fst demo_step3) = AfterEnterLoop"
  "u_stage (fst demo_committed) = Returned"
  by (simp_all add: demo_committed_def demo_step3_def demo_step2_def demo_step1_def
      demo_defs pipeline_defs Let_def)

text \<open>
  After the navigation to \<open>/x/y\<close>: \<open>x\<close> is matched and not exact, \<open>y\<close> is matched
  and exact, the location is committed, and the hooks ran in the order before, after.
\<close>

lemma demo_committed_state:
  "r_location (snd demo_committed) = Some location_xy"
  "hook_calls (snd demo_committed) =
     [(BeforeEnter, 0), (BeforeEnter, 1), (AfterEnter, 0), (AfterEnter, 1)]"
  "n_matched (node_state (snd demo_committed) 0)"
  "\<not> n_exactlyMatched (node_state (snd demo_committed) 0)"
  "n_matched (node_state (snd demo_committed) 1)"
  "n_exactlyMatched (node_state (snd demo_committed) 1)"
  "replace_calls (snd demo_committed) = []"
  by (simp_all add: demo_committed_def demo_step3_def demo_step2_def demo_step1_def
      demo_defs pipeline_defs Let_def)

text \<open>
  Claim C4. When an update is resumed after an awaited before hook and the most recently
  recorded location is not the update's own, the update returns at once, whatever the hook
  resolved with: the router is left exactly as it was (no commit, no flag update, no call
  of \<open>replace\<close>).
\<close>

theorem superseded_update_abandoned:
  assumes "u_stage fr = BeforeLeaveLoop \<or> u_stage fr = BeforeEnterLoop"
      and "r_nextLocation r \<noteq> Some (u_nextLocation fr)"
  shows "Router_update_resume results fr r = (fr\<lparr>u_stage := Returned, u_pending := []\<rparr>, r)"
  using assms
  by (auto simp: Router_update_resume_def after_before_hook_def Router_isNextLocationOutDated_def)

theorem superseded_update_abandoned_witness:
  "Router_update_resume [Some False] demo_frame
     (demo_awaiting\<lparr>r_nextLocation := Some location_root\<rparr>) =
     (demo_frame\<lparr>u_stage := Returned, u_pending := []\<rparr>,
      demo_awaiting\<lparr>r_nextLocation := Some location_root\<rparr>) \<and>
   replace_calls (demo_awaiting\<lparr>r_nextLocation := Some location_root\<rparr>) = [] \<and>
   r_location (demo_awaiting\<lparr>r_nextLocation := Some location_root\<rparr>) = None"
  using superseded_update_abandoned
    [of demo_frame "demo_awaiting\<lparr>r_nextLocation := Some location_root\<rparr>" "[Some False]"]
  by (simp add: demo_defs)

text \<open>
  The step that cancels: when an update is resumed after an awaited before hook of which
  some callback resolved to \<open>false\<close>, and the update's location is still the most
  recently recorded one, the update calls \<open>replace\<close> once, with \<open>this._location\<close>
  or the default location, and returns; nothing else of the router changes.
\<close>

lemma cancelled_update_reverts:
  assumes "u_stage fr = BeforeLeaveLoop \<or> u_stage fr = BeforeEnterLoop"
      and "r_nextLocation r = Some (u_nextLocation fr)"
      and "Some False \<in> set results"
  shows "Router_update_resume results fr r =
           (fr\<lparr>u_stage := Returned, u_pending := []\<rparr>,
            r\<lparr>replace_calls := replace_calls r @
                 [case r_location r of Some location \<Rightarrow> location | None \<Rightarrow> r_default r]\<rparr>)"
  using assms
  by (auto simp: Router_update_resume_def after_before_hook_def Router_isNextLocationOutDated_def
      before_hook_result_def list_ex_iff Router_revert_def)

text \<open>
  Claim C5. When the incoming location has the pathname, search and hash of the committed
  location, the pipeline returns at once: no update is started (so no hook is called and
  \<open>onChange\<close> is not notified) and the router, its matching source included, is
  unchanged. In particular a location submitted again after it has been committed
  triggers no hook.
\<close>

theorem equal_location_noop:
  assumes "r_location r = Some location"
      and "pathname location = pathname nextLocation"
      and "search location = search nextLocation"
      and "hash location = hash nextLocation"
  shows "Router_asyncOnLocationChange searchParams nextLocation r = Inr (None, r)"
  using assms by (simp add: Router_asyncOnLocationChange_def isLocationEqual_def)

theorem equal_location_noop_witness:
  "r_location (snd demo_committed) = Some location_xy \<and>
   Router_asyncOnLocationChange no_searchParams location_xy_again
     ((snd demo_committed)\<lparr>r_nextLocation := Some location_xy_again\<rparr>) =
     Inr (None, (snd demo_committed)\<lparr>r_nextLocation := Some location_xy_again\<rparr>)"
  using equal_location_noop
    [of "(snd demo_committed)\<lparr>r_nextLocation := Some location_xy_again\<rparr>"
      location_xy location_xy_again no_searchParams]
    demo_committed_state(1)
  by (simp add: location_xy_def location_xy_again_def)

lemmas parallel_defs = resume_at_def begin_pipeline_def side_s_def side_t_def
  sidebar_searchParams_def location_xs_def location_xt_def parallel_router_def
  parallel_begun_def

text \<open>
  With several groups the updates of one transition commit one by one. Here the
  primary group's update has nothing to await and commits \<open>/x?_sidebar=/t\<close> when it is
  called; the update of the group \<open>sidebar\<close> is then cancelled, and its \<open>replace\<close>
  call carries the location committed at that moment, which is the new one.
\<close>

lemma parallel_committed_state:
  "map u_stage (fst parallel_committed) = [Returned, Returned]"
  "r_location (snd parallel_committed) = Some location_xs"
  "pathMap (r_source (snd parallel_committed)) =
     [(None, Some ''/x''), (Some ''sidebar'', Some ''/s'')]"
  "replace_calls (snd parallel_committed) = []"
  by (simp_all add: parallel_committed_def parallel_defs demo_defs matcher_defs pipeline_defs
      Let_def)

lemma parallel_cancel_after_commit:
  "map u_stage (fst parallel_second) = [Returned, BeforeLeaveLoop]"
  "r_location (snd parallel_second) = Some location_xt"
  "r_nextLocation (snd parallel_second) = Some location_xt"
  "replace_calls (snd parallel_cancelled) = [location_xt]"
  by (simp_all add: parallel_cancelled_def parallel_second_def parallel_committed_def
      parallel_defs demo_defs matcher_defs pipeline_defs Let_def)


section \<open>Cancelled transitions\<close>

lemma quiet_refl: "quiet r r"
  by (simp add: quiet_def same_flags_def)

lemma quiet_trans: "quiet r r' \<Longrightarrow> quiet r' r'' \<Longrightarrow> quiet r r''"
  by (simp add: quiet_def same_flags_def)

lemma quiet_call_hook: "quiet r (call_hook h m r)"
  by (simp add: quiet_def same_flags_def call_hook_def)

lemma after_enter_loop_stage: "\<not> before_stage (fst (after_enter_loop todo fr r))"
  by (simp add: after_enter_loop_def before_stage_def split: list.splits)

lemma after_leave_loop_stage: "\<not> before_stage (fst (after_leave_loop todo fr r))"
proof (cases todo)
  case Nil
  then show ?thesis by (simp add: after_leave_loop_def after_enter_loop_stage)
next
  case (Cons m ms)
  then show ?thesis by (simp add: after_leave_loop_def before_stage_def)
qed

lemma before_enter_loop_quiet:
  assumes "before_stage (fst (before_enter_loop todo fr r))"
  shows "quiet r (snd (before_enter_loop todo fr r)) \<and>
         u_nextLocation (fst (before_enter_loop todo fr r)) = u_nextLocation fr \<and>
         u_group (fst (before_enter_loop todo fr r)) = u_group fr"
proof (cases todo)
  case Nil
  with assms after_leave_loop_stage [of "u_reversedLeavingMatches fr" fr "Router_commit fr r"]
  show ?thesis by (simp add: before_enter_loop_def)
next
  case (Cons m ms)
  then show ?thesis by (simp add: before_enter_loop_def quiet_call_hook)
qed

lemma before_leave_loop_quiet:
  assumes "before_stage (fst (before_leave_loop todo fr r))"
  shows "quiet r (snd (before_leave_loop todo fr r)) \<and>
         u_nextLocation (fst (before_leave_loop todo fr r)) = u_nextLocation fr \<and>
         u_group (fst (before_leave_loop todo fr r)) = u_group fr"
proof (cases todo)
  case Nil
  with assms before_enter_loop_quiet [of "u_enteringAndUpdatingMatchSet fr" fr r]
  show ?thesis by (simp add: before_leave_loop_def)
next
  case (Cons m ms)
  then show ?thesis by (simp add: before_leave_loop_def quiet_call_hook)
qed

lemma resume_quiet:
  assumes "before_stage (fst (Router_update_resume results fr r))"
  shows "before_stage fr \<and> quiet r (snd (Router_update_resume results fr r)) \<and>
         u_nextLocation (fst (Router_update_resume results fr r)) = u_nextLocation fr \<and>
         u_group (fst (Router_update_resume results fr r)) = u_group fr"
proof (cases "u_stage fr")
  case BeforeLeaveLoop
  with assms show ?thesis
    using before_leave_loop_quiet [of "tl (u_pending fr)" fr r]
    by (auto simp: Router_update_resume_def after_before_hook_def before_stage_def
        split: if_splits)
next
  case BeforeEnterLoop
  with assms show ?thesis
    using before_enter_loop_quiet [of "tl (u_pending fr)" fr r]
    by (auto simp: Router_update_resume_def after_before_hook_def before_stage_def
        split: if_splits)
next
  case AfterLeaveLoop
  with assms after_leave_loop_stage [of "tl (u_pending fr)" fr r]
  show ?thesis by (simp add: Router_update_resume_def)
next
  case AfterEnterLoop
  with assms after_enter_loop_stage [of "tl (u_pending fr)" fr r]
  show ?thesis by (simp add: Router_update_resume_def)
next
  case Returned
  with assms show ?thesis by (simp add: Router_update_resume_def before_stage_def)
qed

lemma quiet_service_event:
  "ev = GetService \<or> ev = ResolvePromise service \<Longrightarrow>
   quiet r (r\<lparr>node_state := (node_state r)(i := node_step ev (node_state r i))\<rparr>)"
  by (auto simp: quiet_def same_flags_def RouteMatch_getService_def Let_def
      resolve_servicePromise_def
      split: option.splits prod.splits factory_output.splits promise_state.splits)

lemma update_step_quiet:
  assumes "before_stage (fst (update_step ev st))"
  shows "before_stage (fst st) \<and> quiet (snd st) (snd (update_step ev st)) \<and>
         u_nextLocation (fst (update_step ev st)) = u_nextLocation (fst st) \<and>
         u_group (fst (update_step ev st)) = u_group (fst st)"
proof (cases st)
  case (Pair fr r)
  show ?thesis
  proof (cases ev)
    case (HookResolved results)
    with assms Pair resume_quiet [of results fr r] show ?thesis by simp
  next
    case (ServiceAccessed i)
    with assms Pair quiet_service_event [of GetService undefined r i] show ?thesis by simp
  next
    case (PromiseSettled i service)
    with assms Pair quiet_service_event [of "ResolvePromise service" service r i]
    show ?thesis by simp
  qed
qed

lemma run_update_quiet:
  "before_stage (fst (run_update evs st)) \<Longrightarrow>
   before_stage (fst st) \<and> quiet (snd st) (snd (run_update evs st)) \<and>
   u_nextLocation (fst (run_update evs st)) = u_nextLocation (fst st) \<and>
   u_group (fst (run_update evs st)) = u_group (fst st)"
proof (induction evs arbitrary: st)
  case Nil
  then show ?case by (simp add: quiet_refl)
next
  case (Cons ev evs)
  from Cons.prems have a: "before_stage (fst (run_update evs (update_step ev st)))" by simp
  note ih = Cons.IH [OF a]
  from ih have b: "before_stage (fst (update_step ev st))" by simp
  note st = update_step_quiet [OF b]
  from ih st show ?case by (auto intro: quiet_trans)
qed

lemma prepared_source_fields:
  "pathMap (prepared_source grp src) = pathMap src"
  "queryDict (prepared_source grp src) = queryDict src"
  "RouteMatch_getMatchEntry (prepared_source grp src) m = RouteMatch_getMatchEntry src m"
  by (auto simp: prepared_source_def RouteMatch_getMatchEntry_def update_conv'
      split: option.splits)

lemma before_leave_loop_result:
  assumes "before_leave_loop todo fr0 r0 = (fr, r')" and "before_stage fr"
  shows "quiet r0 r' \<and> u_nextLocation fr = u_nextLocation fr0 \<and> u_group fr = u_group fr0"
  using before_leave_loop_quiet [of todo fr0 r0] assms by simp

lemma Router_update_quiet:
  assumes "Router_update nextLocation grp m r = (fr, r')" and "before_stage fr"
  shows "u_nextLocation fr = nextLocation \<and> u_group fr = grp \<and>
         quiet (r\<lparr>r_source := prepared_source grp (r_source r)\<rparr>) r'"
  using assms unfolding Router_update_def Let_def prepared_source_def
  by (auto split: option.splits prod.splits dest!: before_leave_loop_result
      simp: quiet_def same_flags_def)

lemma start_updates_length: "length (fst (start_updates l gs gm r)) = length gs"
proof (induction gs arbitrary: r)
  case Nil
  then show ?case by simp
next
  case (Cons g gs)
  let ?m = "case map_of gm g of Some (Some m) \<Rightarrow> m | _ \<Rightarrow> []"
  have "length (fst (start_updates l gs gm (snd (Router_update l g ?m r)))) = length gs"
    by (rule Cons.IH)
  then show ?case by (auto simp: Let_def split: prod.splits)
qed

lemma start_updates_single:
  assumes "start_updates l gs gm r = ([fr], r')"
  shows "\<exists>g m. Router_update l g m r = (fr, r')"
proof -
  from start_updates_length [of l gs gm r] assms have "length gs = 1" by simp
  then obtain g where "gs = [g]" by (cases gs) auto
  with assms show ?thesis by (auto simp: Let_def split: prod.splits)
qed

lemma asyncOnLocationChange_quiet:
  assumes "Router_asyncOnLocationChange searchParams nextLocation r = Inr (Some p, r1)"
      and "p_updates p = [fr1]" and "before_stage fr1"
  shows "u_nextLocation fr1 = nextLocation \<and>
         quiet (r\<lparr>r_source := prepared_source (u_group fr1) (r_source r)\<rparr>) r1"
proof -
  from assms(1,2) obtain ms gs gm where
    "start_updates nextLocation gs gm (r\<lparr>r_matchingSource := ms\<rparr>) = ([fr1], r1)"
    unfolding Router_asyncOnLocationChange_def Let_def
    by (auto split: if_splits prod.splits sum.splits)
  then obtain g m where "Router_update nextLocation g m (r\<lparr>r_matchingSource := ms\<rparr>) = (fr1, r1)"
    using start_updates_single by blast
  from Router_update_quiet [OF this assms(3)] show ?thesis by (simp add: quiet_def same_flags_def)
qed

text \<open>
  Claim C1 (as amended). Take a transition whose pipeline starts the update of a single
  group, and let the update run, not superseded, until an awaited before hook resolves
  with a callback result \<open>false\<close>. Then the update returns with exactly one call of
  \<open>replace\<close>, and its argument is the location that was committed before the transition,
  or the default location if none was; the end of the pipeline adds no call. The committed location, the committed path map, query
  dictionary and match entries, and the matched and exact flags of every node are as
  before the transition; the only write to the committed source is the empty entry map
  that \<open>_update\<close> stores for a group without one.
\<close>

theorem cancelled_transition_reverts_once:
  assumes "r_nextLocation r = Some nextLocation"
      and "Router_asyncOnLocationChange searchParams nextLocation r = Inr (Some p, r1)"
      and "p_updates p = [fr1]"
      and "run_update events (fr1, r1) = (fr, r2)"
      and "u_stage fr = BeforeLeaveLoop \<or> u_stage fr = BeforeEnterLoop"
      and "Some False \<in> set results"
      and "Router_update_resume results fr r2 = (fr', r')"
  shows "u_stage fr' = Returned \<and>
         replace_calls r' = replace_calls r @
           [case r_location r of Some location \<Rightarrow> location | None \<Rightarrow> r_default r] \<and>
         replace_calls (Router_notify p r') = replace_calls r' \<and>
         r_location r' = r_location r \<and>
         (\<forall>i. n_matched (node_state r' i) = n_matched (node_state r i) \<and>
              n_exactlyMatched (node_state r' i) = n_exactlyMatched (node_state r i)) \<and>
         pathMap (r_source r') = pathMap (r_source r) \<and>
         queryDict (r_source r') = queryDict (r_source r) \<and>
         (\<forall>m. RouteMatch_getMatchEntry (r_source r') m = RouteMatch_getMatchEntry (r_source r) m) \<and>
         groupToMatchToMatchEntryMapMap (r_source r') =
           (case map_of (groupToMatchToMatchEntryMapMap (r_source r)) (u_group fr1) of
              Some (Some m) \<Rightarrow> groupToMatchToMatchEntryMapMap (r_source r)
            | _ \<Rightarrow> AList.update (u_group fr1) (Some [])
                     (groupToMatchToMatchEntryMapMap (r_source r)))"
proof -
  have bs: "before_stage fr" using assms(5) by (simp add: before_stage_def)
  from run_update_quiet [of events "(fr1, r1)"] assms(4) bs
  have run: "before_stage fr1" "quiet r1 r2" "u_nextLocation fr = u_nextLocation fr1" by simp_all
  from asyncOnLocationChange_quiet [OF assms(2,3) run(1)]
  have beg: "u_nextLocation fr1 = nextLocation"
    "quiet (r\<lparr>r_source := prepared_source (u_group fr1) (r_source r)\<rparr>) r1" by simp_all
  have q: "quiet (r\<lparr>r_source := prepared_source (u_group fr1) (r_source r)\<rparr>) r2"
    using quiet_trans [OF beg(2) run(2)] .
  have nl: "r_nextLocation r2 = Some (u_nextLocation fr)"
    using q assms(1) run(3) beg(1) by (simp add: quiet_def)
  have res: "fr' = fr\<lparr>u_stage := Returned, u_pending := []\<rparr>"
    "r' = r2\<lparr>replace_calls := replace_calls r2 @
            [case r_location r2 of Some location \<Rightarrow> location | None \<Rightarrow> r_default r2]\<rparr>"
    using assms(5,6,7) nl
    by (auto simp: Router_update_resume_def after_before_hook_def
        Router_isNextLocationOutDated_def before_hook_result_def list_ex_iff Router_revert_def)
  have src: "r_source r' = prepared_source (u_group fr1) (r_source r)"
    using q res(2) by (simp add: quiet_def)
  have c1: "u_stage fr' = Returned" using res(1) by simp
  have c2: "replace_calls r' = replace_calls r @
           [case r_location r of Some location \<Rightarrow> location | None \<Rightarrow> r_default r]"
    using q res(2) by (auto simp: quiet_def split: option.splits)
  have c3: "r_location r' = r_location r" using q res(2) by (simp add: quiet_def)
  have c4: "\<forall>i. n_matched (node_state r' i) = n_matched (node_state r i) \<and>
              n_exactlyMatched (node_state r' i) = n_exactlyMatched (node_state r i)"
    using q res(2) by (simp add: quiet_def same_flags_def)
  have c5: "groupToMatchToMatchEntryMapMap (r_source r') =
           (case map_of (groupToMatchToMatchEntryMapMap (r_source r)) (u_group fr1) of
              Some (Some m) \<Rightarrow> groupToMatchToMatchEntryMapMap (r_source r)
            | _ \<Rightarrow> AList.update (u_group fr1) (Some [])
                     (groupToMatchToMatchEntryMapMap (r_source r)))"
    by (simp add: src prepared_source_def split: option.splits)
  have c6: "replace_calls (Router_notify p r') = replace_calls r'"
    by (simp add: Router_notify_def)
  show ?thesis
    using c1 c2 c3 c4 c5 c6 by (simp add: src prepared_source_fields)
qed

lemmas run_defs = demo_committed_def demo_step3_def demo_step2_def demo_step1_def

lemma demo_committed_router: "snd demo_committed = committed_router"
  by (simp add: committed_router_def run_defs demo_defs pipeline_defs Let_def)

lemma leave_begins:
  "Router_asyncOnLocationChange no_searchParams location_root
     (committed_router\<lparr>r_nextLocation := Some location_root\<rparr>) =
   Inr (Some \<lparr>p_location = Some location_xy, p_nextLocation = location_root,
               p_updates = [leave_frame]\<rparr>,
        leave_awaiting)"
  by (simp add: leave_frame_def leave_awaiting_def committed_router_def demo_defs matcher_defs
      pipeline_defs Let_def)

lemma leave_run:
  "run_update [ServiceAccessed 1] (leave_frame, leave_awaiting) = (leave_frame, leave_awaiting)"
  by (simp add: leave_awaiting_def committed_router_def demo_defs RouteMatch_getService_def
      RouteMatch_update_def)

lemma committed_router_state:
  "r_nextLocation (committed_router\<lparr>r_nextLocation := Some location_root\<rparr>) =
     Some location_root"
  "replace_calls committed_router = []"
  "r_location committed_router = Some location_xy"
  "n_matched (node_state committed_router 1)"
  "n_exactlyMatched (node_state committed_router 1)"
  by (simp_all add: committed_router_def demo_defs RouteMatch_update_def)

theorem cancelled_transition_reverts_once_witness:
  "replace_calls (snd (Router_update_resume [None, Some False] leave_frame leave_awaiting)) =
     [location_xy] \<and>
   r_location (snd (Router_update_resume [None, Some False] leave_frame leave_awaiting)) =
     Some location_xy \<and>
   n_matched (node_state
     (snd (Router_update_resume [None, Some False] leave_frame leave_awaiting)) 1) \<and>
   n_exactlyMatched (node_state
     (snd (Router_update_resume [None, Some False] leave_frame leave_awaiting)) 1)"
proof -
  have stage: "u_stage leave_frame = BeforeLeaveLoop \<or> u_stage leave_frame = BeforeEnterLoop"
    by (simp add: leave_frame_def)
  have cancel: "Some False \<in> set [None, Some False]" by simp
  have pu: "p_updates \<lparr>p_location = Some location_xy, p_nextLocation = location_root,
               p_updates = [leave_frame]\<rparr> = [leave_frame]" by simp
  note t = cancelled_transition_reverts_once
    [OF committed_router_state(1) leave_begins pu leave_run stage cancel surjective_pairing]
  from t committed_router_state show ?thesis by simp
qed

text \<open>
  The claim as stated fails in two ways. When the transition has been superseded, no
  \<open>replace\<close> call is made: the pipeline for \<open>location_xy\<close> awaits the
  \<open>beforeEnter\<close> hook of \<open>x\<close>, \<open>location_root\<close> is recorded meanwhile, and the hook
  resolves to \<open>false\<close>. And when the same hook cancels without a newer location, the
  committed source is not as it was: it has gained the empty entry map of the primary
  group.
\<close>

theorem cancel_without_replace_counterexample:
  "Router_asyncOnLocationChange no_searchParams location_xy
     (demo_router\<lparr>r_nextLocation := Some location_xy\<rparr>) =
     Inr (Some \<lparr>p_location = None, p_nextLocation = location_xy, p_updates = [demo_frame]\<rparr>,
          demo_awaiting) \<and>
   u_stage demo_frame = BeforeEnterLoop \<and>
   \<not> before_hook_result [Some False] \<and>
   replace_calls
     (snd (Router_update_resume [Some False] demo_frame
             (demo_awaiting\<lparr>r_nextLocation := Some location_root\<rparr>))) = [] \<and>
   groupToMatchToMatchEntryMapMap
     (r_source (demo_router\<lparr>r_nextLocation := Some location_xy\<rparr>)) = [] \<and>
   groupToMatchToMatchEntryMapMap
     (r_source (snd (Router_update_resume [Some False] demo_frame demo_awaiting))) =
     [(None, Some [])]"
  by (simp add: demo_begins)
     (simp add: demo_defs Router_update_resume_def after_before_hook_def
        Router_isNextLocationOutDated_def before_hook_result_def Router_revert_def)


section \<open>The invariant of the node flags\<close>

lemma flags_inv_update_node:
  "flags_inv r \<Longrightarrow> (e \<longrightarrow> m) \<Longrightarrow> flags_inv (update_node routeMatch m e r)"
  by (simp add: flags_inv_def update_node_def RouteMatch_update_def)

lemma flags_inv_call_hook: "flags_inv (call_hook h m r) = flags_inv r"
  by (simp add: flags_inv_def call_hook_def)

lemma flags_inv_fold_leave:
  "flags_inv r \<Longrightarrow> flags_inv (fold (\<lambda>routeMatch. update_node routeMatch False False) ms r)"
  by (induction ms arbitrary: r) (simp_all add: flags_inv_update_node)

lemma flags_inv_fold_enter:
  "flags_inv r \<Longrightarrow>
   flags_inv (fold (\<lambda>(k, entry). update_node (entry_match entry) True (entry_exact entry)) es r)"
  by (induction es arbitrary: r) (auto simp: flags_inv_update_node)

lemma flags_inv_commit: "flags_inv r \<Longrightarrow> flags_inv (Router_commit fr r)"
proof -
  assume a: "flags_inv r"
  have "flags_inv (r\<lparr>r_location := Some (u_nextLocation fr),
                 r_source := commit_source (u_group fr) (r_matchingSource r) (r_source r)\<rparr>)"
    using a by (simp add: flags_inv_def)
  then show ?thesis
    unfolding Router_commit_def Let_def
    by (intro flags_inv_fold_enter flags_inv_fold_leave)
qed

lemma flags_inv_after_enter_loop:
  "flags_inv r \<Longrightarrow> flags_inv (snd (after_enter_loop todo fr r))"
  by (simp add: after_enter_loop_def flags_inv_call_hook split: list.splits)

lemma flags_inv_after_leave_loop:
  "flags_inv r \<Longrightarrow> flags_inv (snd (after_leave_loop todo fr r))"
  by (simp add: after_leave_loop_def flags_inv_call_hook flags_inv_after_enter_loop
      split: list.splits)

lemma flags_inv_before_enter_loop:
  "flags_inv r \<Longrightarrow> flags_inv (snd (before_enter_loop todo fr r))"
  by (simp add: before_enter_loop_def flags_inv_call_hook flags_inv_after_leave_loop
      flags_inv_commit split: list.splits)

lemma flags_inv_before_leave_loop:
  "flags_inv r \<Longrightarrow> flags_inv (snd (before_leave_loop todo fr r))"
  by (simp add: before_leave_loop_def flags_inv_call_hook flags_inv_before_enter_loop
      split: list.splits)

lemma flags_inv_revert: "flags_inv (Router_revert r) = flags_inv r"
  by (simp add: flags_inv_def Router_revert_def)

lemma flags_inv_resume:
  "flags_inv r \<Longrightarrow> flags_inv (snd (Router_update_resume results fr r))"
  by (simp add: Router_update_resume_def after_before_hook_def flags_inv_revert
      flags_inv_before_leave_loop flags_inv_before_enter_loop flags_inv_after_leave_loop
      flags_inv_after_enter_loop split: stage.splits)

lemma flags_inv_update:
  "flags_inv r \<Longrightarrow> flags_inv (snd (Router_update nextLocation grp m r))"
proof -
  assume a: "flags_inv r"
  have b: "flags_inv (r\<lparr>r_source := src\<rparr>)" for src
    using a by (simp add: flags_inv_def)
  show ?thesis
    unfolding Router_update_def Let_def
    by (auto simp: a b split: option.splits prod.splits intro!: flags_inv_before_leave_loop)
qed

lemma flags_inv_start_updates:
  "flags_inv r \<Longrightarrow> flags_inv (snd (start_updates nextLocation gs gm r))"
proof (induction gs arbitrary: r)
  case Nil
  then show ?case by simp
next
  case (Cons g gs)
  let ?m = "case map_of gm g of Some (Some m) \<Rightarrow> m | _ \<Rightarrow> []"
  have "flags_inv (snd (Router_update nextLocation g ?m r))"
    using Cons.prems by (rule flags_inv_update)
  then have "flags_inv (snd (start_updates nextLocation gs gm (snd (Router_update nextLocation g ?m r))))"
    by (rule Cons.IH)
  then show ?case by (auto simp: Let_def split: prod.splits)
qed

lemma flags_inv_asyncOnLocationChange:
  assumes "flags_inv r" and "Router_asyncOnLocationChange searchParams nextLocation r = Inr (p, r')"
  shows "flags_inv r'"
proof -
  have b: "flags_inv (r\<lparr>r_matchingSource := src\<rparr>)" for src
    using assms(1) by (simp add: flags_inv_def)
  have c: "flags_inv (r\<lparr>onLeave_calls := x\<rparr>)" for x
    using assms(1) by (simp add: flags_inv_def)
  have d: "start_updates l gs gm (r\<lparr>r_matchingSource := src\<rparr>) = (frs, r') \<Longrightarrow> flags_inv r'"
    for l gs gm src frs
    using flags_inv_start_updates [OF b, of l gs gm src] by simp
  from assms(2) assms(1) show ?thesis
    unfolding Router_asyncOnLocationChange_def Let_def
    by (auto simp: c split: if_splits prod.splits sum.splits dest: d)
qed

lemma flags_inv_step:
  assumes "step searchParams c c'" and "flags_inv (c_router c)"
  shows "flags_inv (c_router c')"
  using assms
proof (induction rule: step.induct)
  case (location_arrives c location)
  then show ?case by (simp add: Router_onLocationChange_def flags_inv_def)
next
  case (pipeline_begins c location queue p r')
  then show ?case using flags_inv_asyncOnLocationChange by fastforce
next
  case (pipeline_throws c location queue e)
  then show ?case by simp
next
  case (update_resumes c p i results fr' r')
  then show ?case using flags_inv_resume [of "c_router c" results "p_updates p ! i"] by simp
next
  case (pipeline_ends c p)
  then show ?case by (simp add: Router_notify_def flags_inv_def)
next
  case (service_accessed c i)
  then show ?case
    by (auto simp: flags_inv_def RouteMatch_getService_def Let_def
        split: option.splits prod.splits factory_output.splits)
next
  case (promise_settles c i service)
  then show ?case
    by (auto simp: flags_inv_def resolve_servicePromise_def
        split: option.splits prod.splits promise_state.splits)
qed

lemma flags_inv_reachable:
  assumes "reachable searchParams r0 c" and "flags_inv r0"
  shows "flags_inv (c_router c)"
  using assms
  by (induction rule: reachable.induct) (auto simp: initial_config_def intro: flags_inv_step)

text \<open>The run of the router that navigates to \<open>/x/y\<close> is a run of the step relation.\<close>

lemma demo_resume_reachable:
  assumes "reachable no_searchParams demo_router (demo_config st)"
      and "u_stage (fst st) \<noteq> Returned"
  shows "reachable no_searchParams demo_router
           (demo_config (Router_update_resume results (fst st) (snd st)))"
proof -
  obtain fr' r' where res: "Router_update_resume results (fst st) (snd st) = (fr', r')"
    by (cases "Router_update_resume results (fst st) (snd st)")
  have "step no_searchParams (demo_config st) (demo_config (fr', r'))"
    using update_resumes
      [where c = "demo_config st" and i = 0 and results = results and fr' = fr' and r' = r'
         and searchParams = no_searchParams
         and p = "\<lparr>p_location = None, p_nextLocation = location_xy,
                   p_updates = [fst st]\<rparr>"]
    by (simp add: demo_config_def assms(2) res)
  with assms(1) res show ?thesis by (auto intro: after_step)
qed

lemma demo_reachable: "reachable no_searchParams demo_router (demo_config demo_committed)"
proof -
  let ?c0 = "initial_config demo_router"
  have "step no_searchParams ?c0 (Router_onLocationChange location_xy ?c0)"
    by (rule location_arrives)
  then have r1: "reachable no_searchParams demo_router (Router_onLocationChange location_xy ?c0)"
    using initial after_step by blast
  have "step no_searchParams (Router_onLocationChange location_xy ?c0)
          (demo_config (demo_frame, demo_awaiting))"
    using pipeline_begins
      [where c = "Router_onLocationChange location_xy (initial_config demo_router)"
         and location = location_xy and queue = "[]" and r' = demo_awaiting
         and searchParams = no_searchParams
         and p = "Some \<lparr>p_location = None, p_nextLocation = location_xy,
                         p_updates = [demo_frame]\<rparr>"]
    by (simp add: demo_config_def Router_onLocationChange_def initial_config_def demo_begins)
  with r1 have "reachable no_searchParams demo_router (demo_config (demo_frame, demo_awaiting))"
    by (rule after_step)
  then have "reachable no_searchParams demo_router (demo_config demo_step1)"
    unfolding demo_step1_def
    using demo_resume_reachable [of "(demo_frame, demo_awaiting)"] by (simp add: demo_frame_def)
  then have "reachable no_searchParams demo_router (demo_config demo_step2)"
    unfolding demo_step2_def by (rule demo_resume_reachable) (simp add: demo_stages)
  then have "reachable no_searchParams demo_router (demo_config demo_step3)"
    unfolding demo_step3_def by (rule demo_resume_reachable) (simp add: demo_stages)
  then show ?thesis
    unfolding demo_committed_def by (rule demo_resume_reachable) (simp add: demo_stages)
qed

text \<open>
  Claim C9. In every configuration that a router reaches from its construction, a node
  whose \<open>$exact\<close> flag is set has its \<open>$matched\<close> flag set: both flags are false at
  construction, and the only writes are \<open>_update(false, false)\<close> for a leaving node and
  \<open>_update(true, exact)\<close> for a node of the committed entry map.
\<close>

theorem exact_implies_matched:
  assumes "reachable searchParams (new_router d p ol oc roots gs factories) c"
  shows "n_exactlyMatched (node_state (c_router c) i) \<longrightarrow> n_matched (node_state (c_router c) i)"
proof -
  have "flags_inv (new_router d p ol oc roots gs factories)"
    by (simp add: flags_inv_def new_router_def new_node_def)
  then have "flags_inv (c_router c)" using flags_inv_reachable [OF assms] by simp
  then show ?thesis by (simp add: flags_inv_def)
qed

theorem exact_implies_matched_witness:
  "reachable no_searchParams demo_router (demo_config demo_committed) \<and>
   n_exactlyMatched (node_state (c_router (demo_config demo_committed)) 1) \<and>
   n_matched (node_state (c_router (demo_config demo_committed)) 1)"
  using exact_implies_matched
    [of no_searchParams demo_default "[]" False True "[schema_x False (Some [schema_y])]" "[]"
      "\<lambda>i. None" "demo_config demo_committed" 1]
    demo_reachable demo_committed_state(6)
  by (simp add: demo_router_def demo_config_def)

end
